theory Spec2Isabelle
  imports Complex_Main "HOL-Library.AList"
begin

section \<open>JavaScript runtime conventions\<close>

text \<open>
  JavaScript numbers are modelled as \<^typ>\<open>real\<close>; \<open>NaN\<close> and the infinities are
  modelled by the absence of a value (\<open>None\<close>), which is how the source treats them:
  every conversion is followed by \<open>Number.isFinite\<close>.  The built-in conversions
  \<open>Number(string)\<close> and \<open>new Date(string).getTime()\<close> are library functions of the
  runtime, not of this repository, and are parameters of the model: \<open>js_Number rt v\<close> is
  \<open>Some n\<close> when \<open>Number(v)\<close> is the finite number \<open>n\<close> and \<open>None\<close> otherwise,
  \<open>js_Date rt v\<close> is \<open>Some n\<close> when the date parses and \<open>None\<close> when
  \<open>getTime()\<close> is \<open>NaN\<close>; \<open>js_toString rt x\<close> is \<open>x.toString()\<close>.  The record also
  holds the one environment variable the engine reads.

  A JavaScript number is a double, and every arithmetic operation returns the double nearest
  to the exact result.  That rounding is the parameter \<open>js_double\<close>: the quotient of the
  numbers \<open>a\<close> and \<open>b\<close> is \<open>js_double rt (a / b)\<close>.  It is written out in the sizing of
  an order (\<open>normaliseQty\<close>, \<open>normalisePrice\<close> and the raw quantity of \<open>openPosition\<close>),
  where a result is cut to a whole number of steps and compared with the venue minimum, so
  that one unit in the last place changes the outcome.  The sums and differences of times
  and of money amounts elsewhere are written exactly.  Strings are lists of characters, and
  the \<open>length\<close> of a string is the length of that list.
\<close>

record js_runtime =
  js_Number :: "string \<Rightarrow> real option"
  js_Date :: "string \<Rightarrow> real option"
  js_toString :: "real \<Rightarrow> string"
  js_double :: "real \<Rightarrow> real"
  env_BYBIT_ACCOUNT_COIN :: "string option"

text \<open>Truthiness of an optional string: \<open>undefined\<close>, \<open>null\<close> and \<open>""\<close> are falsy.\<close>

fun truthy_str :: "string option \<Rightarrow> bool" where
  "truthy_str None = False"
| "truthy_str (Some v) = (v \<noteq> [])"

text \<open>
  A concrete runtime for examples.  \<open>decNumber\<close> is the fragment of \<open>Number\<close> on
  strings made of an optional minus sign and an unsigned decimal with an optional
  fraction (and the empty string, which converts to 0); on every other string it answers
  \<open>None\<close>, which agrees with JavaScript for strings such as \<open>"abc"\<close> and is not used
  elsewhere.  Its arithmetic is exact: \<open>js_double\<close> is the identity.
\<close>

definition digit_val :: "char \<Rightarrow> nat option" where
  "digit_val c =
     (let code = (of_char c :: nat) in
      if 48 \<le> code \<and> code \<le> 57 then Some (code - 48) else None)"

fun digits_val :: "nat \<Rightarrow> string \<Rightarrow> nat option" where
  "digits_val acc [] = Some acc"
| "digits_val acc (c # cs) =
     (case digit_val c of None \<Rightarrow> None | Some d \<Rightarrow> digits_val (10 * acc + d) cs)"

definition decimal_val :: "string \<Rightarrow> real option" where
  "decimal_val v =
     (let ip = takeWhile (\<lambda>c. c \<noteq> CHR ''.'') v;
          rest = dropWhile (\<lambda>c. c \<noteq> CHR ''.'') v
      in (case rest of
            [] \<Rightarrow> if ip = [] then None else map_option real (digits_val 0 ip)
          | dot # fp \<Rightarrow>
              if ip = [] \<and> fp = [] then None
              else (case (digits_val 0 ip, digits_val 0 fp) of
                      (Some i, Some f) \<Rightarrow> Some (real i + real f / 10 ^ length fp)
                    | _ \<Rightarrow> None)))"

fun decNumber :: "string \<Rightarrow> real option" where
  "decNumber [] = Some 0"
| "decNumber (c # cs) =
     (if c = CHR ''-'' then map_option uminus (decimal_val cs) else decimal_val (c # cs))"

text \<open>\<open>stepString\<close> is \<open>Number.prototype.toString\<close> on the step sizes of the examples.\<close>

definition stepString :: "real \<Rightarrow> string" where
  "stepString x = (if x = 0.1 then ''0.1'' else if x = 0.01 then ''0.01''
     else if x = 0.001 then ''0.001'' else if x = 10 then ''10'' else ''1'')"

definition rt0 :: js_runtime where
  "rt0 = \<lparr> js_Number = decNumber, js_Date = (\<lambda>v. None), js_toString = stepString,
           js_double = (\<lambda>x. x), env_BYBIT_ACCOUNT_COIN = None \<rparr>"

section \<open>Funding tickers (lib/bybit-top-funding)\<close>

type_synonym symbol = string

text \<open>
  \<open>BybitFundingTicker\<close>: the fields the engine reads.  The 24h statistics and the
  funding interval are carried by the source record but never read by the engine.
\<close>

record BybitFundingTicker =
  symbol :: symbol
  fundingRate :: real
  fundingRateAbs :: real
  markPrice :: "real option"
  lastPrice :: "real option"
  bidPrice :: "real option"
  askPrice :: "real option"
  nextFundingTime :: "string option"

record BybitTicker =
  raw_symbol :: symbol
  raw_fundingRate :: "string option"
  raw_lastPrice :: "string option"
  raw_markPrice :: "string option"
  raw_bidPrice :: "string option"
  raw_askPrice :: "string option"
  raw_nextFundingTime :: "string option"

definition parseNumber :: "js_runtime \<Rightarrow> string option \<Rightarrow> real option" where
  "parseNumber rt value = (case value of None \<Rightarrow> None | Some v \<Rightarrow> js_Number rt v)"

definition transformTicker :: "js_runtime \<Rightarrow> BybitTicker \<Rightarrow> BybitFundingTicker option" where
  "transformTicker rt ticker =
     (case parseNumber rt (raw_fundingRate ticker) of
        None \<Rightarrow> None
      | Some rate \<Rightarrow> Some
          \<lparr> symbol = raw_symbol ticker,
            fundingRate = rate,
            fundingRateAbs = \<bar>rate\<bar>,
            markPrice = parseNumber rt (raw_markPrice ticker),
            lastPrice = parseNumber rt (raw_lastPrice ticker),
            bidPrice = parseNumber rt (raw_bidPrice ticker),
            askPrice = parseNumber rt (raw_askPrice ticker),
            nextFundingTime = raw_nextFundingTime ticker \<rparr>)"

text \<open>
  \<open>Array.prototype.sort\<close> with a comparator: the sort is stable, so for a consistent
  comparator its result is the stable insertion sort below (an element goes before the
  first element it does not compare greater than).
\<close>

fun insert_cmp :: "('a \<Rightarrow> 'a \<Rightarrow> real) \<Rightarrow> 'a \<Rightarrow> 'a list \<Rightarrow> 'a list" where
  "insert_cmp cmp x [] = [x]"
| "insert_cmp cmp x (y # ys) =
     (if cmp x y \<le> 0 then x # y # ys else y # insert_cmp cmp x ys)"

definition js_sort :: "('a \<Rightarrow> 'a \<Rightarrow> real) \<Rightarrow> 'a list \<Rightarrow> 'a list" where
  "js_sort cmp xs = foldr (insert_cmp cmp) xs []"

definition fetchTopFundingTickers :: "js_runtime \<Rightarrow> nat \<Rightarrow> BybitTicker list \<Rightarrow> BybitFundingTicker list" where
  "fetchTopFundingTickers rt limit tickers =
     take limit (js_sort (\<lambda>a b. fundingRateAbs b - fundingRateAbs a)
                   (List.map_filter (transformTicker rt) tickers))"

section \<open>Trading helpers (lib/bybit-trading)\<close>

datatype TradeSide = Buy | Sell

text \<open>Every \<open>throw new Error(...)\<close> of the library is one constructor.\<close>

datatype error =
    CredentialsMissing
  | InstrumentFetchFailed
  | InstrumentInvalid
  | IncompleteFilters
  | BelowMinimum real real
  | OrderRequestFailed
  | OrderRejected
  | PositionFetchFailed
  | PositionRejected
  | ExecutionFetchFailed
  | ExecutionRejected
  | FundingFetchFailed
  | FundingRejected
  | WalletFetchFailed
  | WalletRejected
  | WalletCoinMissing
  | TickerApiError
  | TickerShape

record LimitOrderInput =
  in_symbol :: symbol
  in_side :: TradeSide
  in_price :: real
  in_qty :: real
  in_reduceOnly :: bool

record InstrumentFilters =
  minOrderQty :: real
  qtyStep :: real
  priceStep :: real

definition toNumber :: "js_runtime \<Rightarrow> string option \<Rightarrow> real option" where
  "toNumber rt value =
     (case value of None \<Rightarrow> None | Some v \<Rightarrow> if v = [] then None else js_Number rt v)"

text \<open>\<open>String.prototype.split(".")\<close>.\<close>

fun split_dot :: "string \<Rightarrow> string \<Rightarrow> string list" where
  "split_dot cur [] = [cur]"
| "split_dot cur (c # cs) =
     (if c = CHR ''.'' then cur # split_dot [] cs else split_dot (cur @ [c]) cs)"

definition decimalPlaces :: "js_runtime \<Rightarrow> real \<Rightarrow> nat" where
  "decimalPlaces rt step =
     (let parts = split_dot [] (js_toString rt step) in
      if length parts = 2 then length (parts ! 1) else 0)"

text \<open>The part of the instruments-info response that \<open>getInstrumentFilters\<close> reads.\<close>

record instrument_response =
  ir_ok :: bool
  ir_retCode :: int
  ir_hasInfo :: bool
  ir_minOrderQty :: "string option"
  ir_qtyStep :: "string option"
  ir_tickSize :: "string option"

text \<open>\<open>!x\<close> on an optional number: \<open>undefined\<close> and \<open>0\<close> are falsy.\<close>

fun falsy_num :: "real option \<Rightarrow> bool" where
  "falsy_num None = True"
| "falsy_num (Some x) = (x = 0)"

definition getInstrumentFilters ::
  "js_runtime \<Rightarrow> InstrumentFilters option \<Rightarrow> instrument_response \<Rightarrow> error + InstrumentFilters" where
  "getInstrumentFilters rt cached resp =
     (case cached of
        Some filters \<Rightarrow> Inr filters
      | None \<Rightarrow>
          if \<not> ir_ok resp then Inl InstrumentFetchFailed
          else if ir_retCode resp \<noteq> 0 \<or> \<not> ir_hasInfo resp then Inl InstrumentInvalid
          else
            let minQ = toNumber rt (ir_minOrderQty resp);
                qStep = toNumber rt (ir_qtyStep resp);
                pStep = toNumber rt (ir_tickSize resp)
            in if falsy_num minQ \<or> falsy_num qStep \<or> falsy_num pStep then Inl IncompleteFilters
               else Inr \<lparr> minOrderQty = the minQ, qtyStep = the qStep, priceStep = the pStep \<rparr>)"

definition normaliseQty :: "js_runtime \<Rightarrow> real \<Rightarrow> InstrumentFilters \<Rightarrow> error + (real \<times> nat)" where
  "normaliseQty rt rawQty filters =
     (let precision = decimalPlaces rt (qtyStep filters);
          units = \<lfloor>js_double rt (rawQty / qtyStep filters)\<rfloor>;
          minUnits = \<lceil>js_double rt (js_double rt (minOrderQty filters / qtyStep filters)
                                    - js_double rt (1 / 10 ^ 9))\<rceil>;
          adjustedUnits = max units minUnits;
          qty = js_double rt (real_of_int adjustedUnits * qtyStep filters)
      in if qty < minOrderQty filters then Inl (BelowMinimum qty (minOrderQty filters))
         else Inr (qty, precision))"

text \<open>\<open>Math.round\<close> rounds to the nearest integer, halves upwards.\<close>

definition Math_round :: "real \<Rightarrow> int" where
  "Math_round x = \<lfloor>x + 1 / 2\<rfloor>"

definition normalisePrice :: "js_runtime \<Rightarrow> real \<Rightarrow> real \<Rightarrow> real \<times> nat" where
  "normalisePrice rt rawPrice pStep =
     (let precision = decimalPlaces rt pStep;
          units = Math_round (js_double rt (rawPrice / pStep));
          price = js_double rt (real_of_int units * pStep)
      in (price, precision))"

record prepared_order =
  po_qty :: real
  po_price :: real
  po_qtyPrecision :: nat
  po_pricePrecision :: nat

definition prepareLimitOrder ::
  "js_runtime \<Rightarrow> InstrumentFilters option \<Rightarrow> instrument_response \<Rightarrow> LimitOrderInput \<Rightarrow> error + prepared_order" where
  "prepareLimitOrder rt cached resp input =
     (case getInstrumentFilters rt cached resp of
        Inl e \<Rightarrow> Inl e
      | Inr filters \<Rightarrow>
          (case normaliseQty rt (in_qty input) filters of
             Inl e \<Rightarrow> Inl e
           | Inr (qty, qtyPrecision) \<Rightarrow>
               (case normalisePrice rt (in_price input) (priceStep filters) of
                  (price, pricePrecision) \<Rightarrow>
                    Inr \<lparr> po_qty = qty, po_price = price,
                          po_qtyPrecision = qtyPrecision, po_pricePrecision = pricePrecision \<rparr>)))"

text \<open>
  The number that \<open>Number(x.toFixed(p))\<close> reads back: \<open>x\<close> rounded to \<open>p\<close> decimals,
  halves away from zero.
\<close>

definition toFixed_value :: "real \<Rightarrow> nat \<Rightarrow> real" where
  "toFixed_value x p =
     (if x < 0 then - (real_of_int \<lfloor>- x * 10 ^ p + 1 / 2\<rfloor> / 10 ^ p)
      else real_of_int \<lfloor>x * 10 ^ p + 1 / 2\<rfloor> / 10 ^ p)"

text \<open>
  Everything outside the process that one call of \<open>placeLimitOrder\<close> meets: the
  credentials in the environment, the instrument cache entry and instruments-info
  response, the generated order link id and the answer of the order endpoint.
\<close>

record order_env =
  oe_credentials :: bool
  oe_cached :: "InstrumentFilters option"
  oe_instrument :: instrument_response
  oe_orderLinkId :: string
  oe_ok :: bool
  oe_retCode :: int

record order_result =
  or_orderLinkId :: string
  or_qty :: real
  or_price :: real

text \<open>
  \<open>placeLimitOrder\<close> returns its result or error together with the order requests it
  sent to the venue (the bodies of \<open>POST /v5/order/create\<close>).
\<close>

record order_request =
  rq_symbol :: symbol
  rq_side :: TradeSide
  rq_qty :: real
  rq_price :: real
  rq_reduceOnly :: bool
  rq_orderLinkId :: string

definition placeLimitOrder ::
  "js_runtime \<Rightarrow> order_env \<Rightarrow> LimitOrderInput \<Rightarrow> (error + order_result) \<times> order_request list" where
  "placeLimitOrder rt env input =
     (if \<not> oe_credentials env then (Inl CredentialsMissing, [])
      else (case prepareLimitOrder rt (oe_cached env) (oe_instrument env) input of
              Inl e \<Rightarrow> (Inl e, [])
            | Inr p \<Rightarrow>
                let qty = toFixed_value (po_qty p) (po_qtyPrecision p);
                    price = toFixed_value (po_price p) (po_pricePrecision p);
                    request = \<lparr> rq_symbol = in_symbol input, rq_side = in_side input,
                                rq_qty = qty, rq_price = price,
                                rq_reduceOnly = in_reduceOnly input,
                                rq_orderLinkId = oe_orderLinkId env \<rparr>
                in if \<not> oe_ok env then (Inl OrderRequestFailed, [request])
                   else if oe_retCode env \<noteq> 0 then (Inl OrderRejected, [request])
                   else (Inr \<lparr> or_orderLinkId = oe_orderLinkId env, or_qty = qty, or_price = price \<rparr>,
                         [request])))"

text \<open>The part of the position-list response that \<open>getPositionSize\<close> reads;
  \<open>pr_size\<close> is \<open>payload.result?.list?.[0]?.size\<close>, absent when any link is.\<close>

record position_response =
  pr_credentials :: bool
  pr_ok :: bool
  pr_retCode :: int
  pr_size :: "string option"

definition getPositionSize :: "js_runtime \<Rightarrow> position_response \<Rightarrow> error + real" where
  "getPositionSize rt resp =
     (if \<not> pr_credentials resp then Inl CredentialsMissing
      else if \<not> pr_ok resp then Inl PositionFetchFailed
      else if pr_retCode resp \<noteq> 0 then Inl PositionRejected
      else
        let size = (case pr_size resp of None \<Rightarrow> ''0'' | Some v \<Rightarrow> v) in
        (case js_Number rt size of
           Some parsed \<Rightarrow> Inr \<bar>parsed\<bar>
         | None \<Rightarrow> Inr 0))"

text \<open>One element of the execution list, and the execution-list response.\<close>

record execution =
  execFee :: "string option"
  execType :: string
  execPnl :: "string option"

record execution_response =
  er_credentials :: bool
  er_ok :: bool
  er_retCode :: int
  er_list :: "execution list option"

definition getOrderExecutions :: "execution_response \<Rightarrow> error + execution list" where
  "getOrderExecutions resp =
     (if \<not> er_credentials resp then Inl CredentialsMissing
      else if \<not> er_ok resp then Inl ExecutionFetchFailed
      else if er_retCode resp \<noteq> 0 then Inl ExecutionRejected
      else Inr (case er_list resp of None \<Rightarrow> [] | Some l \<Rightarrow> l))"

record funding_entry =
  fe_execTime :: "string option"
  fe_timestamp :: "string option"
  fe_fundingFee :: "string option"
  fe_funding :: "string option"

record funding_response =
  fr_credentials :: bool
  fr_ok :: bool
  fr_retCode :: int
  fr_list :: "funding_entry list option"

definition getFundingHistory :: "funding_response \<Rightarrow> error + funding_entry list" where
  "getFundingHistory resp =
     (if \<not> fr_credentials resp then Inl CredentialsMissing
      else if \<not> fr_ok resp then Inl FundingFetchFailed
      else if fr_retCode resp \<noteq> 0 then Inl FundingRejected
      else Inr (case fr_list resp of None \<Rightarrow> [] | Some l \<Rightarrow> l))"

record wallet_coin =
  wc_coin :: string
  wc_equity :: "string option"
  wc_walletBalance :: "string option"
  wc_totalEquity :: "string option"

record wallet_response =
  wr_credentials :: bool
  wr_ok :: bool
  wr_retCode :: int
  wr_coins :: "wallet_coin list option"

text \<open>\<open>a ?? b\<close> on optional values.\<close>

fun nullish :: "'a option \<Rightarrow> 'a option \<Rightarrow> 'a option" where
  "nullish (Some a) b = Some a"
| "nullish None b = b"

definition toNum :: "js_runtime \<Rightarrow> string option \<Rightarrow> real" where
  "toNum rt value =
     (case value of None \<Rightarrow> 0
      | Some v \<Rightarrow> (case js_Number rt v of Some num \<Rightarrow> num | None \<Rightarrow> 0))"

text \<open>\<open>getWalletBalance\<close>, restricted to the \<open>totalEquity\<close> field, the only one the
  engine reads; \<open>wr_coins\<close> is absent when the response has no first account.\<close>

definition getWalletBalance :: "js_runtime \<Rightarrow> string \<Rightarrow> wallet_response \<Rightarrow> error + real" where
  "getWalletBalance rt coin resp =
     (if \<not> wr_credentials resp then Inl CredentialsMissing
      else if \<not> wr_ok resp then Inl WalletFetchFailed
      else (case (if wr_retCode resp \<noteq> 0 then None else wr_coins resp) of
              None \<Rightarrow> Inl WalletRejected
            | Some coins \<Rightarrow>
                (case nullish (find (\<lambda>entry. wc_coin entry = coin) coins)
                        (case coins of [] \<Rightarrow> None | c # _ \<Rightarrow> Some c) of
                   None \<Rightarrow> Inl WalletCoinMissing
                 | Some target \<Rightarrow>
                     Inr (toNum rt (nullish (wc_equity target)
                            (nullish (wc_walletBalance target) (wc_totalEquity target)))))))"

section \<open>Engine constants and helpers (src/index.ts)\<close>

definition PRE_FUNDING_MS :: real where "PRE_FUNDING_MS = 5000"
definition POST_FUNDING_MS :: real where "POST_FUNDING_MS = 5000"
definition FUNDING_THRESHOLD :: real where "FUNDING_THRESHOLD = 0.005"
definition TRADE_NOTIONAL_USD :: real where "TRADE_NOTIONAL_USD = 500"
definition MAX_CLOSE_ATTEMPTS :: nat where "MAX_CLOSE_ATTEMPTS = 5"
definition MAX_DRAWDOWN_PCT :: real where "MAX_DRAWDOWN_PCT = 0.03"

definition ACCOUNT_COIN :: "js_runtime \<Rightarrow> string" where
  "ACCOUNT_COIN rt = (case env_BYBIT_ACCOUNT_COIN rt of None \<Rightarrow> ''USDT'' | Some c \<Rightarrow> c)"

definition parseFundingTimestamp :: "js_runtime \<Rightarrow> string option \<Rightarrow> real option" where
  "parseFundingTimestamp rt value =
     (case value of
        None \<Rightarrow> None
      | Some v \<Rightarrow>
          if v = [] then None
          else (case js_Number rt v of
                  Some numeric \<Rightarrow> Some (if length v = 10 then numeric * 1000 else numeric)
                | None \<Rightarrow> js_Date rt v))"

text \<open>
  The comparator of the selection in \<open>pollTickers\<close>.  An unparsable event time counts
  as \<open>Infinity\<close>; \<open>Infinity - Infinity\<close> is \<open>NaN\<close>, which \<open>sort\<close> treats as 0.
  Only the sign of the result matters, so an infinite difference is written \<open>1\<close> or \<open>-1\<close>.
\<close>

definition selectionCompare :: "js_runtime \<Rightarrow> BybitFundingTicker \<Rightarrow> BybitFundingTicker \<Rightarrow> real" where
  "selectionCompare rt a b =
     (let rateDiff = fundingRateAbs b - fundingRateAbs a in
      if rateDiff \<noteq> 0 then rateDiff
      else (case (parseFundingTimestamp rt (nextFundingTime a),
                  parseFundingTimestamp rt (nextFundingTime b)) of
              (Some aTime, Some bTime) \<Rightarrow> aTime - bTime
            | (Some aTime, None) \<Rightarrow> -1
            | (None, Some bTime) \<Rightarrow> 1
            | (None, None) \<Rightarrow> 0))"

text \<open>The \<open>sorted\<close> list of \<open>pollTickers\<close>: filter, sort, \<open>slice(0, 10)\<close>.\<close>

definition selectTop :: "js_runtime \<Rightarrow> BybitFundingTicker list \<Rightarrow> BybitFundingTicker list" where
  "selectTop rt tickers =
     take 10 (js_sort (selectionCompare rt)
                (filter (\<lambda>ticker. truthy_str (nextFundingTime ticker)) tickers))"

section \<open>Trade accounting (src/index.ts)\<close>

record ExecutionSummary =
  fee :: real
  tradePnl :: real

text \<open>\<open>Array.from(new Set(xs))\<close>: the first occurrence of every element, in order.\<close>

fun js_unique :: "'a list \<Rightarrow> 'a list \<Rightarrow> 'a list" where
  "js_unique seen [] = []"
| "js_unique seen (x # xs) =
     (if x \<in> set seen then js_unique seen xs else x # js_unique (x # seen) xs)"

text \<open>The numbers that survive \<open>.filter(Number.isFinite)\<close>, summed by \<open>reduce\<close>.\<close>

definition sum_finite :: "real option list \<Rightarrow> real" where
  "sum_finite vs = foldl (\<lambda>sum value. sum + value) 0 (List.map_filter (\<lambda>v. v) vs)"

text \<open>The body of the \<open>unique.map(async (id) => ...)\<close> callback.\<close>

definition summarizeOne :: "js_runtime \<Rightarrow> execution_response \<Rightarrow> ExecutionSummary" where
  "summarizeOne rt resp =
     (case getOrderExecutions resp of
        Inl e \<Rightarrow> \<lparr> fee = 0, tradePnl = 0 \<rparr>
      | Inr executions \<Rightarrow>
          let fee = sum_finite (map (\<lambda>exec. case execFee exec of None \<Rightarrow> Some 0
                                              | Some v \<Rightarrow> js_Number rt v) executions);
              tradePnl = sum_finite (map (\<lambda>exec. if execType exec = ''Trade''
                                              then (case execPnl exec of None \<Rightarrow> Some 0
                                                    | Some v \<Rightarrow> js_Number rt v)
                                              else Some 0) executions)
          in \<lparr> fee = \<bar>fee\<bar>, tradePnl = tradePnl \<rparr>)"

text \<open>
  \<open>summarizeExecutions\<close>; \<open>venue\<close> gives the answer of the execution endpoint for each
  order link id (after the deduplication every id is asked once).
\<close>

definition summarizeExecutions ::
  "js_runtime \<Rightarrow> (string \<Rightarrow> execution_response) \<Rightarrow> string list \<Rightarrow> ExecutionSummary" where
  "summarizeExecutions rt venue orderLinkIds =
     (let unique = js_unique [] (filter (\<lambda>id. id \<noteq> []) orderLinkIds) in
      if length unique = 0 then \<lparr> fee = 0, tradePnl = 0 \<rparr>
      else foldl (\<lambda>acc summary. \<lparr> fee = fee acc + fee summary,
                                    tradePnl = tradePnl acc + tradePnl summary \<rparr>)
             \<lparr> fee = 0, tradePnl = 0 \<rparr>
             (map (\<lambda>id. summarizeOne rt (venue id)) unique))"

text \<open>\<open>fetchFundingFee\<close>; \<open>now\<close> is the value of \<open>Date.now()\<close> inside the callback.\<close>

definition fetchFundingFee ::
  "js_runtime \<Rightarrow> funding_response \<Rightarrow> real \<Rightarrow> real \<Rightarrow> real \<Rightarrow> real" where
  "fetchFundingFee rt resp startTime endTime now =
     (case getFundingHistory resp of
        Inl e \<Rightarrow> 0
      | Inr history \<Rightarrow>
          foldl (\<lambda>sum value. sum + value) 0
            (map (\<lambda>entry.
                let execTime = (case nullish (fe_execTime entry) (fe_timestamp entry) of
                                  None \<Rightarrow> Some now | Some v \<Rightarrow> js_Number rt v);
                    feeValue = (case nullish (fe_fundingFee entry) (fe_funding entry) of
                                  None \<Rightarrow> Some 0 | Some v \<Rightarrow> js_Number rt v)
                in (case (execTime, feeValue) of
                      (Some t, Some f) \<Rightarrow>
                        if t < startTime \<or> t > endTime + 5 * 60 * 1000 then 0 else f
                    | _ \<Rightarrow> 0)) history))"

section \<open>Engine state (src/index.ts)\<close>

record ScheduledTrade =
  st_fundingTime :: real
  st_openTimer :: nat

record ActivePosition =
  ap_symbol :: symbol
  ap_side :: TradeSide
  ap_qty :: real
  ap_entryPrice :: real
  ap_fundingTime :: real
  ap_openedAt :: real
  ap_entryOrderLinkId :: string
  ap_closeOrderLinkIds :: "string list"
  ap_closeTimer :: nat

text \<open>The callbacks handed to \<open>setTimeout\<close>.\<close>

datatype timer_callback = OpenTimer symbol real | CloseTimer symbol

text \<open>A pending timer: the time before which it cannot fire, and its callback.\<close>

record pending_timer =
  pt_due :: real
  pt_callback :: timer_callback

datatype caller = ByBreach | BySignal

text \<open>The line that \<open>finalizePosition\<close> logs for a closed trade: the numbers it passes
  to \<open>formatUsd\<close>, in the order of the line.  The change and the drawdown (with its limit)
  are printed when the starting equity is known.\<close>

record closed_line =
  cl_symbol :: symbol
  cl_gross :: real
  cl_fees :: real
  cl_funding :: real
  cl_equity :: real
  cl_change :: "real option"
  cl_drawdown :: "(real \<times> real) option"

text \<open>What the engine does to the outside: order requests, calls of \<open>shutdown\<close> and the
  log line of a closed trade.  A closing order carries the number of the \<open>closePosition\<close>
  call that sent it.\<close>

datatype effect =
    EntryOrderSent symbol order_request
  | CloseOrderSent nat order_request
  | ShutdownCalled caller
  | ClosedLogged closed_line

text \<open>
  The functions of the engine are \<open>async\<close>: a call runs until its next \<open>await\<close>, and
  is resumed when the awaited promise settles; between the two, any other callback may run.
  A suspended call is a stack of frames, one per \<open>async\<close> function waiting on the call
  above it; the top frame names the \<open>await\<close> it waits at and holds the locals that are
  live there.  \<open>closePosition\<close> and the \<open>finalizePosition\<close> it ends with share one
  call number; a position is referred to by its address in \<open>heap\<close>, because
  \<open>closePosition\<close> keeps the object it read at its start.
\<close>

datatype frame =
    MainBalance
  | MainPoll
  | PollFetch
  | OpenRefresh symbol real "BybitFundingTicker option"
  | OpenOrder symbol real LimitOrderInput
  | CloseSize nat symbol nat TradeSide nat
  | CloseOrder nat symbol nat TradeSide nat LimitOrderInput
  | CloseSleep nat symbol nat TradeSide nat
  | FinEntry nat symbol nat "string list"
  | FinClose nat symbol nat ExecutionSummary "string list"
  | FinFunding nat symbol real real real real
  | FinBalance nat symbol real real real
  | FinShutdown nat symbol
  | ShutdownLoop
  | SignalExit

record engine =
  schedules :: "(symbol \<times> ScheduledTrade) list"
  activePositions :: "(symbol \<times> nat) list"
  latestTickers :: "(symbol \<times> BybitFundingTicker) list"
  openingSymbols :: "symbol set"
  tradingEnabled :: bool
  startingEquity :: "real option"
  drawdownLimitUsd :: real
  pollHandle :: bool
  monitorHandle :: bool
  heap :: "(nat \<times> ActivePosition) list"
  timers :: "(nat \<times> pending_timer) list"
  tasks :: "(nat \<times> frame list) list"
  nextId :: nat
  trace :: "effect list"
  exited :: bool

text \<open>The module's initial state, with \<open>main()\<close> waiting for the wallet balance.\<close>

definition initial :: engine where
  "initial = \<lparr> schedules = [], activePositions = [], latestTickers = [],
       openingSymbols = {}, tradingEnabled = True, startingEquity = None,
       drawdownLimitUsd = 0, pollHandle = False, monitorHandle = False,
       heap = [], timers = [], tasks = [(0, [MainBalance])], nextId = 1,
       trace = [], exited = False \<rparr>"

definition spawn :: "frame list \<Rightarrow> engine \<Rightarrow> engine" where
  "spawn stack s =
     (if stack = [] then s
      else s\<lparr> tasks := tasks s @ [(nextId s, stack)], nextId := Suc (nextId s) \<rparr>)"

text \<open>\<open>setTimeout(cb, delay)\<close>, called at time \<open>now\<close>, returns a fresh handle; the callback
  runs no earlier than \<open>delay\<close> milliseconds later.  (The delays of this engine lie between
  0 and 10 seconds, inside the range that the runtime takes as given.)\<close>

definition setTimeout :: "timer_callback \<Rightarrow> real \<Rightarrow> real \<Rightarrow> engine \<Rightarrow> nat \<times> engine" where
  "setTimeout cb delay now s =
     (nextId s, s\<lparr> timers := timers s @ [(nextId s, \<lparr> pt_due = now + delay, pt_callback = cb \<rparr>)],
                   nextId := Suc (nextId s) \<rparr>)"

definition clearTimeout :: "nat \<Rightarrow> engine \<Rightarrow> engine" where
  "clearTimeout t s = s\<lparr> timers := AList.delete t (timers s) \<rparr>"

definition clearSchedule :: "symbol \<Rightarrow> engine \<Rightarrow> engine" where
  "clearSchedule sy s =
     (let s1 = (case map_of (schedules s) sy of
                  None \<Rightarrow> s
                | Some entry \<Rightarrow> clearTimeout (st_openTimer entry) s)
      in s1\<lparr> schedules := AList.delete sy (schedules s1) \<rparr>)"

definition clearActivePosition :: "symbol \<Rightarrow> engine \<Rightarrow> engine" where
  "clearActivePosition sy s =
     (let s1 = (case map_of (activePositions s) sy of
                  None \<Rightarrow> s
                | Some ref \<Rightarrow>
                    (case map_of (heap s) ref of
                       None \<Rightarrow> s
                     | Some position \<Rightarrow> clearTimeout (ap_closeTimer position) s))
      in s1\<lparr> activePositions := AList.delete sy (activePositions s1) \<rparr>)"

section \<open>Entry (src/index.ts: openPosition, scheduleTrade, pollTickers)\<close>

text \<open>\<open>openPosition\<close> up to its first \<open>await\<close> (the ticker refresh).\<close>

definition openPosition :: "symbol \<Rightarrow> real \<Rightarrow> engine \<Rightarrow> engine" where
  "openPosition sy fundingTime s =
     (if \<not> tradingEnabled s then s
      else if sy \<in> openingSymbols s \<or> map_of (activePositions s) sy \<noteq> None then s
      else spawn [OpenRefresh sy fundingTime (map_of (latestTickers s) sy)]
             (s\<lparr> openingSymbols := insert sy (openingSymbols s) \<rparr>))"

definition scheduleTrade :: "js_runtime \<Rightarrow> BybitFundingTicker \<Rightarrow> real \<Rightarrow> engine \<Rightarrow> engine" where
  "scheduleTrade rt ticker now s =
     (case parseFundingTimestamp rt (nextFundingTime ticker) of
        None \<Rightarrow> s
      | Some fundingTime \<Rightarrow>
          if fundingTime = 0 then s
          else if fundingTime \<le> now then s
          else if \<bar>fundingRate ticker\<bar> < FUNDING_THRESHOLD then s
          else
            let existing = map_of (schedules s) (symbol ticker) in
            if map_option st_fundingTime existing = Some fundingTime then s
            else
              let openTime = fundingTime - PRE_FUNDING_MS;
                  timeUntilOpen = openTime - now;
                  s1 = (if existing \<noteq> None then clearSchedule (symbol ticker) s else s)
              in if timeUntilOpen > PRE_FUNDING_MS then s1
                 else if timeUntilOpen \<le> 0 then openPosition (symbol ticker) fundingTime s1
                 else
                   (case setTimeout (OpenTimer (symbol ticker) fundingTime) timeUntilOpen now s1 of
                      (openTimer, s2) \<Rightarrow>
                        s2\<lparr> schedules := AList.update (symbol ticker)
                              \<lparr> st_fundingTime = fundingTime, st_openTimer = openTimer \<rparr>
                              (schedules s2) \<rparr>))"

record ticker_response =
  tr_ok :: bool
  tr_retCode :: int
  tr_list :: "BybitTicker list option"

definition parseTickerResponse :: "ticker_response \<Rightarrow> error + BybitTicker list" where
  "parseTickerResponse resp =
     (if \<not> tr_ok resp then Inl TickerApiError
      else if tr_retCode resp \<noteq> 0 then Inl TickerShape
      else (case tr_list resp of None \<Rightarrow> Inl TickerShape | Some l \<Rightarrow> Inr l))"

definition fetchFundingTicker :: "js_runtime \<Rightarrow> ticker_response \<Rightarrow> error + BybitFundingTicker option" where
  "fetchFundingTicker rt resp =
     (case parseTickerResponse resp of
        Inl e \<Rightarrow> Inl e
      | Inr tickers \<Rightarrow>
          Inr (case tickers of [] \<Rightarrow> None | first # _ \<Rightarrow> transformTicker rt first))"

text \<open>\<open>pollTickers\<close> after \<open>await fetchTopFundingTickers(50)\<close>.\<close>

definition pollTickers_fetched :: "js_runtime \<Rightarrow> real \<Rightarrow> ticker_response \<Rightarrow> engine \<Rightarrow> engine" where
  "pollTickers_fetched rt now resp s =
     (case parseTickerResponse resp of
        Inl e \<Rightarrow> s
      | Inr raw \<Rightarrow>
          let tickers = fetchTopFundingTickers rt 50 raw;
              s1 = foldl (\<lambda>s ticker. s\<lparr> latestTickers :=
                             AList.update (symbol ticker) ticker (latestTickers s) \<rparr>) s tickers;
              sorted = selectTop rt tickers;
              activeSymbols = set (map symbol sorted);
              s2 = foldl (\<lambda>s ticker. scheduleTrade rt ticker now s) s1 sorted
          in foldl (\<lambda>s sy. if sy \<notin> activeSymbols then clearSchedule sy s else s)
               s2 (map fst (schedules s2)))"

text \<open>\<open>pollTickers\<close> up to its \<open>await\<close>.\<close>

definition pollTickers :: "engine \<Rightarrow> frame list" where
  "pollTickers s = (if \<not> tradingEnabled s then [] else [PollFetch])"

text \<open>The \<open>finally\<close> block of \<open>openPosition\<close>.\<close>

definition openPosition_finally :: "symbol \<Rightarrow> engine \<Rightarrow> engine" where
  "openPosition_finally sy s = s\<lparr> openingSymbols := openingSymbols s - {sy} \<rparr>"

text \<open>\<open>!p || p <= 0\<close> on an optional price.\<close>

fun bad_price :: "real option \<Rightarrow> bool" where
  "bad_price None = True"
| "bad_price (Some p) = (p = 0 \<or> p \<le> 0)"

text \<open>\<open>openPosition\<close> from the answer of \<open>fetchFundingTicker\<close> to the order request.
  The result is the new state and the frames that replace the waiting frame
  (none when the function has returned).\<close>

definition openPosition_refreshed ::
  "js_runtime \<Rightarrow> ticker_response \<Rightarrow> symbol \<Rightarrow> real \<Rightarrow> BybitFundingTicker option \<Rightarrow> engine
     \<Rightarrow> engine \<times> frame list" where
  "openPosition_refreshed rt resp sy fundingTime ticker0 s =
     (let (ticker, s1) =
            (case fetchFundingTicker rt resp of
               Inr (Some refreshed) \<Rightarrow>
                 (Some refreshed,
                  s\<lparr> latestTickers := AList.update sy refreshed (latestTickers s) \<rparr>)
             | _ \<Rightarrow> (ticker0, s))
      in (case ticker of
            None \<Rightarrow> (openPosition_finally sy s1, [])
          | Some t \<Rightarrow>
              if \<bar>fundingRate t\<bar> < FUNDING_THRESHOLD then (openPosition_finally sy s1, [])
              else
                let side = (if fundingRate t \<ge> 0 then Sell else Buy);
                    referencePrice = nullish (markPrice t) (nullish (lastPrice t)
                                       (nullish (bidPrice t) (askPrice t)))
                in if bad_price referencePrice then (openPosition_finally sy s1, [])
                   else
                     let rawQty = js_double rt (TRADE_NOTIONAL_USD / the referencePrice) in
                     (s1, [OpenOrder sy fundingTime
                             \<lparr> in_symbol = sy, in_side = side, in_price = the referencePrice,
                               in_qty = rawQty, in_reduceOnly = False \<rparr>])))"

text \<open>\<open>openPosition\<close> from the answer of \<open>placeLimitOrder\<close> to its end.\<close>

definition openPosition_ordered ::
  "js_runtime \<Rightarrow> real \<Rightarrow> order_env \<Rightarrow> symbol \<Rightarrow> real \<Rightarrow> LimitOrderInput \<Rightarrow> engine
     \<Rightarrow> engine \<times> frame list" where
  "openPosition_ordered rt now env sy fundingTime input s =
     (case placeLimitOrder rt env input of
        (outcome, sent) \<Rightarrow>
          let s1 = s\<lparr> trace := trace s @ map (EntryOrderSent sy) sent \<rparr> in
          (case outcome of
             Inl e \<Rightarrow> (openPosition_finally sy s1, [])
           | Inr result \<Rightarrow>
               let entryPrice = or_price result;
                   qty = or_qty result;
                   closeDelay = max (fundingTime + POST_FUNDING_MS - now) 500
               in (case setTimeout (CloseTimer sy) closeDelay now s1 of
                     (closeTimer, s2) \<Rightarrow>
                       let ref = nextId s2;
                           position = \<lparr> ap_symbol = sy, ap_side = in_side input, ap_qty = qty,
                                        ap_entryPrice = entryPrice, ap_fundingTime = fundingTime,
                                        ap_openedAt = now,
                                        ap_entryOrderLinkId = or_orderLinkId result,
                                        ap_closeOrderLinkIds = [], ap_closeTimer = closeTimer \<rparr>;
                           s3 = s2\<lparr> heap := heap s2 @ [(ref, position)],
                                    nextId := Suc (nextId s2),
                                    activePositions := AList.update sy ref (activePositions s2) \<rparr>
                       in (openPosition_finally sy s3, []))))"

section \<open>Exit (src/index.ts: closePosition, finalizePosition, shutdown)\<close>

text \<open>The head of the \<open>for\<close> loop of \<open>closePosition\<close> and, after the loop, the call of
  \<open>finalizePosition\<close> up to its first \<open>await\<close>.\<close>

definition finalizePosition :: "nat \<Rightarrow> symbol \<Rightarrow> engine \<Rightarrow> engine \<times> frame list" where
  "finalizePosition cid sy s =
     (case map_of (activePositions s) sy of
        None \<Rightarrow> (s, [])
      | Some ref \<Rightarrow>
          (case map_of (heap s) ref of
             None \<Rightarrow> (s, [])
           | Some position \<Rightarrow> (s, [FinEntry cid sy ref [ap_entryOrderLinkId position]])))"

definition closePosition_loop ::
  "nat \<Rightarrow> symbol \<Rightarrow> nat \<Rightarrow> TradeSide \<Rightarrow> nat \<Rightarrow> engine \<Rightarrow> engine \<times> frame list" where
  "closePosition_loop cid sy ref closeSide attempt s =
     (if attempt \<le> MAX_CLOSE_ATTEMPTS then (s, [CloseSize cid sy ref closeSide attempt])
      else finalizePosition cid sy s)"

text \<open>\<open>closePosition\<close> up to its first \<open>await\<close>.\<close>

definition closePosition :: "symbol \<Rightarrow> engine \<Rightarrow> engine \<times> frame list" where
  "closePosition sy s =
     (case map_of (activePositions s) sy of
        None \<Rightarrow> (s, [])
      | Some ref \<Rightarrow>
          (case map_of (heap s) ref of
             None \<Rightarrow> (s, [])
           | Some position \<Rightarrow>
               let closeSide = (if ap_side position = Buy then Sell else Buy);
                   cid = nextId s
               in closePosition_loop cid sy ref closeSide 1 (s\<lparr> nextId := Suc (nextId s) \<rparr>)))"

text \<open>The loop body from the answer of \<open>getPositionSize\<close> to the next \<open>await\<close>.\<close>

definition closePosition_sized ::
  "js_runtime \<Rightarrow> position_response \<Rightarrow> nat \<Rightarrow> symbol \<Rightarrow> nat \<Rightarrow> TradeSide \<Rightarrow> nat \<Rightarrow> engine
     \<Rightarrow> engine \<times> frame list" where
  "closePosition_sized rt resp cid sy ref closeSide attempt s =
     (case getPositionSize rt resp of
        Inl e \<Rightarrow> (s, [CloseSleep cid sy ref closeSide attempt])
      | Inr currentSize \<Rightarrow>
          if currentSize \<le> 0 then finalizePosition cid sy s
          else
            let referencePrice =
                  (case map_of (latestTickers s) sy of
                     Some ticker \<Rightarrow>
                       if closeSide = Buy
                       then nullish (askPrice ticker) (nullish (markPrice ticker) (lastPrice ticker))
                       else nullish (bidPrice ticker) (nullish (markPrice ticker) (lastPrice ticker))
                   | None \<Rightarrow> map_option ap_entryPrice (map_of (heap s) ref))
            in if bad_price referencePrice then finalizePosition cid sy s
               else (s, [CloseOrder cid sy ref closeSide attempt
                           \<lparr> in_symbol = sy, in_side = closeSide, in_price = the referencePrice,
                             in_qty = currentSize, in_reduceOnly = True \<rparr>]))"

text \<open>The loop body from the answer of \<open>placeLimitOrder\<close> to \<open>await sleep(1_000)\<close>.\<close>

definition closePosition_ordered ::
  "js_runtime \<Rightarrow> order_env \<Rightarrow> nat \<Rightarrow> symbol \<Rightarrow> nat \<Rightarrow> TradeSide \<Rightarrow> nat \<Rightarrow> LimitOrderInput \<Rightarrow> engine
     \<Rightarrow> engine \<times> frame list" where
  "closePosition_ordered rt env cid sy ref closeSide attempt input s =
     (case placeLimitOrder rt env input of
        (outcome, sent) \<Rightarrow>
          let s1 = s\<lparr> trace := trace s @ map (CloseOrderSent cid) sent \<rparr>;
              s2 = (case outcome of
                      Inl e \<Rightarrow> s1
                    | Inr result \<Rightarrow>
                        if or_orderLinkId result \<noteq> [] then
                          s1\<lparr> heap := map (\<lambda>(r, position). if r = ref
                                   then (r, position\<lparr> ap_closeOrderLinkIds :=
                                           ap_closeOrderLinkIds position @ [or_orderLinkId result] \<rparr>)
                                   else (r, position)) (heap s1) \<rparr>
                        else s1)
          in (s2, [CloseSleep cid sy ref closeSide attempt]))"

text \<open>
  The loop \<open>for (const symbol of activePositions.keys()) await closePosition(symbol)\<close>
  of \<open>shutdown\<close>.  The iterator of a \<open>Map\<close> is live.  Every key it has passed was
  deleted during its visit, and a key set again goes to the end of the map, so the next
  key of the iterator is always the first key of the map when the loop is resumed.
\<close>

fun shutdown_loop :: "symbol list \<Rightarrow> engine \<Rightarrow> engine \<times> frame list" where
  "shutdown_loop [] s = (s, [])"
| "shutdown_loop (sy # keys) s =
     (case closePosition sy s of
        (s1, fs) \<Rightarrow> if fs = [] then shutdown_loop keys s1 else (s1, fs @ [ShutdownLoop]))"

text \<open>\<open>shutdown\<close> up to its first \<open>await\<close>.\<close>

definition shutdown :: "caller \<Rightarrow> engine \<Rightarrow> engine \<times> frame list" where
  "shutdown who s =
     (let s1 = s\<lparr> trace := trace s @ [ShutdownCalled who],
                  pollHandle := False, monitorHandle := False \<rparr>;
          s2 = foldl (\<lambda>s sy. clearSchedule sy s) s1 (map fst (schedules s1))
      in shutdown_loop (map fst (activePositions s2)) s2)"

text \<open>\<open>finalizePosition\<close> between its \<open>await\<close>s.\<close>

definition finalizePosition_entry ::
  "js_runtime \<Rightarrow> (string \<Rightarrow> execution_response) \<Rightarrow> nat \<Rightarrow> symbol \<Rightarrow> nat \<Rightarrow> string list \<Rightarrow> engine
     \<Rightarrow> engine \<times> frame list" where
  "finalizePosition_entry rt venue cid sy ref ids s =
     (let entrySummary = summarizeExecutions rt venue ids;
          closeIds = (case map_of (heap s) ref of None \<Rightarrow> []
                      | Some position \<Rightarrow> ap_closeOrderLinkIds position)
      in (s, [FinClose cid sy ref entrySummary closeIds]))"

definition finalizePosition_close ::
  "js_runtime \<Rightarrow> real \<Rightarrow> (string \<Rightarrow> execution_response) \<Rightarrow> nat \<Rightarrow> symbol \<Rightarrow> nat \<Rightarrow> ExecutionSummary
     \<Rightarrow> string list \<Rightarrow> engine \<Rightarrow> engine \<times> frame list" where
  "finalizePosition_close rt now venue cid sy ref entrySummary ids s =
     (let closeSummary = summarizeExecutions rt venue ids;
          gross = tradePnl entrySummary + tradePnl closeSummary;
          fees = fee entrySummary + fee closeSummary;
          openedAt = (case map_of (heap s) ref of None \<Rightarrow> 0 | Some position \<Rightarrow> ap_openedAt position)
      in (s, [FinFunding cid sy gross fees (openedAt - 30 * 60 * 1000) now]))"

definition finalizePosition_funding ::
  "js_runtime \<Rightarrow> real \<Rightarrow> funding_response \<Rightarrow> nat \<Rightarrow> symbol \<Rightarrow> real \<Rightarrow> real \<Rightarrow> real \<Rightarrow> real \<Rightarrow> engine
     \<Rightarrow> engine \<times> frame list" where
  "finalizePosition_funding rt now resp cid sy gross fees startTime endTime s =
     (s, [FinBalance cid sy gross fees (fetchFundingFee rt resp startTime endTime now)])"

text \<open>From the answer of \<open>getWalletBalance\<close> to the end of \<open>finalizePosition\<close>, or to
  \<open>await shutdown()\<close>; in both cases through the \<open>finally\<close> block when the function ends.\<close>

definition finalizePosition_balance ::
  "js_runtime \<Rightarrow> wallet_response \<Rightarrow> nat \<Rightarrow> symbol \<Rightarrow> real \<Rightarrow> real \<Rightarrow> real \<Rightarrow> engine
     \<Rightarrow> engine \<times> frame list" where
  "finalizePosition_balance rt resp cid sy grossPnl totalFees fundingFee s =
     (let currentEquity = (case getWalletBalance rt (ACCOUNT_COIN rt) resp of
                             Inl e \<Rightarrow> None | Inr equity \<Rightarrow> Some equity);
          equityChange = (case (startingEquity s, currentEquity) of
                            (Some start, Some current) \<Rightarrow> Some (current - start)
                          | _ \<Rightarrow> None);
          drawdown = (case (startingEquity s, currentEquity) of
                        (Some start, Some current) \<Rightarrow> Some (start - current)
                      | _ \<Rightarrow> None);
          s0 = (case currentEquity of
                  None \<Rightarrow> s
                | Some current \<Rightarrow>
                    s\<lparr> trace := trace s @ [ClosedLogged
                         \<lparr> cl_symbol = sy, cl_gross = grossPnl, cl_fees = - totalFees,
                           cl_funding = fundingFee, cl_equity = current, cl_change = equityChange,
                           cl_drawdown = map_option (\<lambda>d. (d, drawdownLimitUsd s)) drawdown \<rparr>] \<rparr>)
      in (case drawdown of
            None \<Rightarrow> (clearActivePosition sy s0, [])
          | Some d \<Rightarrow>
              if d \<ge> drawdownLimitUsd s0 \<and> tradingEnabled s0 then
                (case shutdown ByBreach (s0\<lparr> tradingEnabled := False \<rparr>) of
                   (s1, fs) \<Rightarrow>
                     if fs = [] then (clearActivePosition sy s1, [])
                     else (s1, fs @ [FinShutdown cid sy]))
              else (clearActivePosition sy s0, [])))"

text \<open>An exception inside the \<open>try\<close> of \<open>finalizePosition\<close>: \<open>catch\<close>, then \<open>finally\<close>.\<close>

definition finalizePosition_caught :: "symbol \<Rightarrow> engine \<Rightarrow> engine \<times> frame list" where
  "finalizePosition_caught sy s = (clearActivePosition sy s, [])"

text \<open>\<open>main\<close> from the answer of \<open>getWalletBalance\<close> to \<open>await pollTickers()\<close>; a
  failure ends the process (\<open>process.exit(1)\<close>).\<close>

definition main_balance :: "js_runtime \<Rightarrow> wallet_response \<Rightarrow> engine \<Rightarrow> engine \<times> frame list" where
  "main_balance rt resp s =
     (case getWalletBalance rt (ACCOUNT_COIN rt) resp of
        Inl e \<Rightarrow> (s\<lparr> exited := True \<rparr>, [])
      | Inr equity \<Rightarrow>
          let s1 = s\<lparr> startingEquity := Some equity,
                       drawdownLimitUsd := equity * MAX_DRAWDOWN_PCT,
                       pollHandle := True, monitorHandle := True \<rparr>
          in (s1, pollTickers s1 @ [MainPoll]))"

section \<open>The event loop\<close>

text \<open>What an awaited promise settles with.  \<open>R_throw\<close> is an exception raised while a
  call is inside the \<open>try\<close> block of \<open>finalizePosition\<close>.\<close>

datatype response =
    R_tickers ticker_response
  | R_position position_response
  | R_order order_env
  | R_sleep
  | R_executions "string \<Rightarrow> execution_response"
  | R_funding funding_response
  | R_wallet wallet_response
  | R_throw

text \<open>A call resumes at its top frame; the result is the state and the frames that
  replace the top frame.  A response that the frame does not wait for changes nothing.\<close>

definition advance :: "js_runtime \<Rightarrow> real \<Rightarrow> response \<Rightarrow> frame \<Rightarrow> engine \<Rightarrow> engine \<times> frame list" where
  "advance rt now resp f s =
     (case f of
        MainBalance \<Rightarrow>
          (case resp of R_wallet r \<Rightarrow> main_balance rt r s | _ \<Rightarrow> (s, [f]))
      | PollFetch \<Rightarrow>
          (case resp of R_tickers r \<Rightarrow> (pollTickers_fetched rt now r s, []) | _ \<Rightarrow> (s, [f]))
      | OpenRefresh sy ft ticker \<Rightarrow>
          (case resp of R_tickers r \<Rightarrow> openPosition_refreshed rt r sy ft ticker s
           | _ \<Rightarrow> (s, [f]))
      | OpenOrder sy ft input \<Rightarrow>
          (case resp of R_order env \<Rightarrow> openPosition_ordered rt now env sy ft input s
           | _ \<Rightarrow> (s, [f]))
      | CloseSize cid sy ref side attempt \<Rightarrow>
          (case resp of R_position r \<Rightarrow> closePosition_sized rt r cid sy ref side attempt s
           | _ \<Rightarrow> (s, [f]))
      | CloseOrder cid sy ref side attempt input \<Rightarrow>
          (case resp of R_order env \<Rightarrow> closePosition_ordered rt env cid sy ref side attempt input s
           | _ \<Rightarrow> (s, [f]))
      | CloseSleep cid sy ref side attempt \<Rightarrow>
          (case resp of R_sleep \<Rightarrow> closePosition_loop cid sy ref side (Suc attempt) s
           | _ \<Rightarrow> (s, [f]))
      | FinEntry cid sy ref ids \<Rightarrow>
          (case resp of R_executions venue \<Rightarrow> finalizePosition_entry rt venue cid sy ref ids s
           | R_throw \<Rightarrow> finalizePosition_caught sy s
           | _ \<Rightarrow> (s, [f]))
      | FinClose cid sy ref entrySummary ids \<Rightarrow>
          (case resp of
             R_executions venue \<Rightarrow> finalizePosition_close rt now venue cid sy ref entrySummary ids s
           | R_throw \<Rightarrow> finalizePosition_caught sy s
           | _ \<Rightarrow> (s, [f]))
      | FinFunding cid sy gross fees startTime endTime \<Rightarrow>
          (case resp of
             R_funding r \<Rightarrow> finalizePosition_funding rt now r cid sy gross fees startTime endTime s
           | R_throw \<Rightarrow> finalizePosition_caught sy s
           | _ \<Rightarrow> (s, [f]))
      | FinBalance cid sy gross fees funding \<Rightarrow>
          (case resp of R_wallet r \<Rightarrow> finalizePosition_balance rt r cid sy gross fees funding s
           | R_throw \<Rightarrow> finalizePosition_caught sy s
           | _ \<Rightarrow> (s, [f]))
      | _ \<Rightarrow> (s, [f]))"

text \<open>A call has returned to the frames below it: each caller runs on to its next
  \<open>await\<close> or returns in turn.\<close>

fun continue_ret :: "engine \<Rightarrow> frame list \<Rightarrow> engine \<times> frame list" where
  "continue_ret s [] = (s, [])"
| "continue_ret s (ShutdownLoop # rest) =
     (case shutdown_loop (map fst (activePositions s)) s of
        (s1, fs) \<Rightarrow> if fs = [] then continue_ret s1 rest else (s1, fs @ rest))"
| "continue_ret s (FinShutdown cid sy # rest) = continue_ret (clearActivePosition sy s) rest"
| "continue_ret s (MainPoll # rest) = continue_ret s rest"
| "continue_ret s (SignalExit # rest) = (s\<lparr> exited := True \<rparr>, [])"
| "continue_ret s (f # rest) = (s, f # rest)"

datatype event =
    Respond nat real response
  | TimerFire nat real
  | PollTick
  | Signal

definition set_task :: "nat \<Rightarrow> frame list \<Rightarrow> engine \<Rightarrow> engine" where
  "set_task tid stack s =
     s\<lparr> tasks := (if stack = [] then AList.delete tid (tasks s)
                   else AList.update tid stack (tasks s)) \<rparr>"

fun step :: "js_runtime \<Rightarrow> engine \<Rightarrow> event \<Rightarrow> engine" where
  "step rt s (Respond tid now resp) =
     (if exited s then s
      else (case map_of (tasks s) tid of
              None \<Rightarrow> s
            | Some [] \<Rightarrow> s
            | Some (f # rest) \<Rightarrow>
                (case advance rt now resp f s of
                   (s1, fs) \<Rightarrow>
                     (case (if fs = [] then continue_ret s1 rest else (s1, fs @ rest)) of
                        (s2, stack) \<Rightarrow> set_task tid stack s2))))"
| "step rt s (TimerFire t now) =
     (if exited s then s
      else (case map_of (timers s) t of
              None \<Rightarrow> s
            | Some timer \<Rightarrow>
                if now < pt_due timer then s
                else (case pt_callback timer of
                        OpenTimer sy fundingTime \<Rightarrow>
                          openPosition sy fundingTime
                            ((clearTimeout t s)\<lparr> schedules := AList.delete sy (schedules s) \<rparr>)
                      | CloseTimer sy \<Rightarrow>
                          (case closePosition sy (clearTimeout t s) of (s1, fs) \<Rightarrow> spawn fs s1))))"
| "step rt s PollTick =
     (if exited s \<or> \<not> pollHandle s then s else spawn (pollTickers s) s)"
| "step rt s Signal =
     (if exited s then s
      else (case shutdown BySignal s of
              (s1, fs) \<Rightarrow> if fs = [] then s1\<lparr> exited := True \<rparr> else spawn (fs @ [SignalExit]) s1))"

definition run :: "js_runtime \<Rightarrow> engine \<Rightarrow> event list \<Rightarrow> engine" where
  "run rt s evs = foldl (step rt) s evs"

definition reachable :: "js_runtime \<Rightarrow> engine \<Rightarrow> bool" where
  "reachable rt s = (\<exists>evs. s = run rt initial evs)"

section \<open>Notions used in the properties\<close>

text \<open>The whole steps in the requested quantity, the fewest steps that \<open>normaliseQty\<close>
  accepts, and the quantity made of that many steps.\<close>

definition requestedUnits :: "js_runtime \<Rightarrow> real \<Rightarrow> InstrumentFilters \<Rightarrow> int" where
  "requestedUnits rt rawQty filters = \<lfloor>js_double rt (rawQty / qtyStep filters)\<rfloor>"

definition minUnits :: "js_runtime \<Rightarrow> InstrumentFilters \<Rightarrow> int" where
  "minUnits rt filters =
     \<lceil>js_double rt (js_double rt (minOrderQty filters / qtyStep filters) - js_double rt (1 / 10 ^ 9))\<rceil>"

definition leastQty :: "js_runtime \<Rightarrow> InstrumentFilters \<Rightarrow> real" where
  "leastQty rt filters = js_double rt (real_of_int (minUnits rt filters) * qtyStep filters)"

text \<open>The quantity \<open>normaliseQty\<close> arrives at before its check: the requested steps, raised
  to the fewest accepted.\<close>

definition conformedQty :: "js_runtime \<Rightarrow> real \<Rightarrow> InstrumentFilters \<Rightarrow> real" where
  "conformedQty rt rawQty filters =
     js_double rt (real_of_int (max (requestedUnits rt rawQty filters) (minUnits rt filters))
                   * qtyStep filters)"

text \<open>The order of the selection: a larger absolute rate first; among equal rates the earlier
  event time first, an unparsable event time last.\<close>

definition ranks_before :: "js_runtime \<Rightarrow> BybitFundingTicker \<Rightarrow> BybitFundingTicker \<Rightarrow> bool" where
  "ranks_before rt a b =
     (fundingRateAbs a > fundingRateAbs b \<or>
      (fundingRateAbs a = fundingRateAbs b \<and>
       (case (parseFundingTimestamp rt (nextFundingTime a),
              parseFundingTimestamp rt (nextFundingTime b)) of
          (Some aTime, Some bTime) \<Rightarrow> aTime \<le> bTime
        | (None, Some bTime) \<Rightarrow> False
        | _ \<Rightarrow> True)))"

text \<open>The conditions under which \<open>scheduleTrade\<close> considers a ticker at all: its event time
  parses to \<open>fundingTime\<close>, is not 0 and lies in the future, and the rate reaches the threshold.\<close>

definition qualifies :: "js_runtime \<Rightarrow> BybitFundingTicker \<Rightarrow> real \<Rightarrow> real \<Rightarrow> bool" where
  "qualifies rt ticker now fundingTime =
     (parseFundingTimestamp rt (nextFundingTime ticker) = Some fundingTime \<and> fundingTime \<noteq> 0
      \<and> now < fundingTime \<and> FUNDING_THRESHOLD \<le> \<bar>fundingRate ticker\<bar>)"

text \<open>The symbol has a schedule entry for this event time.\<close>

definition armedFor :: "engine \<Rightarrow> symbol \<Rightarrow> real \<Rightarrow> bool" where
  "armedFor s sy fundingTime = (map_option st_fundingTime (map_of (schedules s) sy) = Some fundingTime)"

text \<open>What \<open>scheduleTrade\<close> does with an entry for another event time: \<open>clearSchedule\<close> if there is one.\<close>

definition unschedule :: "symbol \<Rightarrow> engine \<Rightarrow> engine" where
  "unschedule sy s = (if map_of (schedules s) sy \<noteq> None then clearSchedule sy s else s)"

text \<open>Every pending timer has a handle below the next fresh one, so that a new timer is
  found under its handle.\<close>

definition fresh_ids :: "engine \<Rightarrow> bool" where
  "fresh_ids s = list_all (\<lambda>entry. fst entry < nextId s) (timers s)"

text \<open>A state change that hands out handles in order: the counter does not go back, and every
  new timer has a handle given out in between.\<close>

definition advances :: "engine \<Rightarrow> engine \<Rightarrow> bool" where
  "advances s s' =
     (nextId s \<le> nextId s'
      \<and> fst ` set (timers s') \<subseteq> fst ` set (timers s) \<union> {nextId s..<nextId s'})"

text \<open>How often \<open>shutdown\<close> was called for a drawdown breach.\<close>

definition breaches :: "engine \<Rightarrow> nat" where
  "breaches s = count_list (trace s) (ShutdownCalled ByBreach)"

text \<open>The risk state: the latch, the breach count, the starting equity and the limit.\<close>

definition risk :: "engine \<Rightarrow> bool \<times> nat \<times> real option \<times> real" where
  "risk s = (tradingEnabled s, breaches s, startingEquity s, drawdownLimitUsd s)"

text \<open>How often the trading-enabled flag changes along a sequence of events.\<close>

fun flag_changes :: "js_runtime \<Rightarrow> engine \<Rightarrow> event list \<Rightarrow> nat" where
  "flag_changes rt s [] = 0"
| "flag_changes rt s (e # es) =
     (if tradingEnabled (step rt s e) \<noteq> tradingEnabled s then 1 else 0)
     + flag_changes rt (step rt s e) es"

text \<open>The balance read by \<open>finalizePosition\<close> shows a drawdown at or above the limit.\<close>

definition breach :: "js_runtime \<Rightarrow> wallet_response \<Rightarrow> engine \<Rightarrow> bool" where
  "breach rt resp s =
     (case (startingEquity s, getWalletBalance rt (ACCOUNT_COIN rt) resp) of
        (Some start, Inr current) \<Rightarrow> start - current \<ge> drawdownLimitUsd s
      | _ \<Rightarrow> False)"

text \<open>What \<open>finalizePosition\<close> logs when the balance has been read: the line of the closed
  trade, or nothing when the wallet query failed.\<close>

definition closed_log ::
  "js_runtime \<Rightarrow> wallet_response \<Rightarrow> symbol \<Rightarrow> real \<Rightarrow> real \<Rightarrow> real \<Rightarrow> engine \<Rightarrow> effect list" where
  "closed_log rt resp sy gross fees funding s =
     (case getWalletBalance rt (ACCOUNT_COIN rt) resp of
        Inl e \<Rightarrow> []
      | Inr current \<Rightarrow>
          [ClosedLogged \<lparr> cl_symbol = sy, cl_gross = gross, cl_fees = - fees, cl_funding = funding,
             cl_equity = current,
             cl_change = map_option (\<lambda>start. current - start) (startingEquity s),
             cl_drawdown = map_option (\<lambda>start. (start - current, drawdownLimitUsd s))
                             (startingEquity s) \<rparr>])"

text \<open>What one step may do to the risk state: nothing, latch off with one more breach shutdown,
  or (in \<open>main\<close>) record the starting equity and the limit.\<close>

definition risk_step :: "engine \<Rightarrow> engine \<Rightarrow> bool" where
  "risk_step s s' =
     (risk s' = risk s
      \<or> (tradingEnabled s \<and> risk s' = (False, breaches s + 1, startingEquity s, drawdownLimitUsd s))
      \<or> (tradingEnabled s' = tradingEnabled s \<and> breaches s' = breaches s
          \<and> (\<exists>e. startingEquity s' = Some e \<and> drawdownLimitUsd s' = e * MAX_DRAWDOWN_PCT)))"

text \<open>The drawdown limit is the fixed fraction of the starting equity.\<close>

definition limit_ok :: "engine \<Rightarrow> bool" where
  "limit_ok s = (case startingEquity s of None \<Rightarrow> True
                 | Some e \<Rightarrow> drawdownLimitUsd s = e * MAX_DRAWDOWN_PCT)"

text \<open>The breach count agrees with the latch.\<close>

definition latch_ok :: "engine \<Rightarrow> bool" where
  "latch_ok s = (breaches s = (if tradingEnabled s then 0 else 1))"

text \<open>The closing orders sent by one call of \<open>closePosition\<close>.\<close>

fun is_close_order :: "nat \<Rightarrow> effect \<Rightarrow> bool" where
  "is_close_order cid (CloseOrderSent c request) = (c = cid)"
| "is_close_order cid e = False"

definition close_orders :: "nat \<Rightarrow> engine \<Rightarrow> nat" where
  "close_orders cid s = length (filter (is_close_order cid) (trace s))"

text \<open>One attempt of the close loop as seen from outside: the answer of the position query, the
  answer of the order endpoint, the end of the sleep.  An answer the call does not wait for
  is ignored by \<open>step\<close>, so one script serves every path through the loop body.\<close>

definition attempt_events :: "nat \<Rightarrow> real \<Rightarrow> position_response \<times> order_env \<Rightarrow> event list" where
  "attempt_events tid now a =
     [Respond tid now (R_position (fst a)), Respond tid now (R_order (snd a)),
      Respond tid now R_sleep]"

definition close_script :: "nat \<Rightarrow> real \<Rightarrow> (position_response \<times> order_env) list \<Rightarrow> event list" where
  "close_script tid now attempts = concat (map (attempt_events tid now) attempts)"

text \<open>Where a call of \<open>closePosition\<close> stands, with \<open>n\<close> orders sent so far: in attempt
  \<open>attempt\<close> of its loop, or past the loop in \<open>finalizePosition\<close>.\<close>

definition close_frame :: "nat \<Rightarrow> nat \<Rightarrow> frame \<Rightarrow> bool" where
  "close_frame cid n f =
     (case f of
        CloseSize c sy ref side attempt \<Rightarrow> c = cid \<and> 1 \<le> attempt \<and> attempt \<le> 5 \<and> n + 1 \<le> attempt
      | CloseOrder c sy ref side attempt input \<Rightarrow> c = cid \<and> 1 \<le> attempt \<and> attempt \<le> 5 \<and> n + 1 \<le> attempt
      | CloseSleep c sy ref side attempt \<Rightarrow> c = cid \<and> 1 \<le> attempt \<and> attempt \<le> 5 \<and> n \<le> attempt
      | FinEntry c sy ref ids \<Rightarrow> c = cid \<and> n \<le> 5
      | _ \<Rightarrow> False)"

text \<open>The invariant of the close loop for the task \<open>tid\<close> running the call \<open>cid\<close>.\<close>

definition close_inv :: "nat \<Rightarrow> nat \<Rightarrow> nat \<Rightarrow> engine \<Rightarrow> bool" where
  "close_inv tid cid base s =
     (base \<le> close_orders cid s \<and>
      (case map_of (tasks s) tid of
         None \<Rightarrow> close_orders cid s - base \<le> 5
       | Some stack \<Rightarrow> length stack = 1 \<and> close_frame cid (close_orders cid s - base) (hd stack)))"

text \<open>The call has left its loop: it waits at the first \<open>await\<close> of \<open>finalizePosition\<close>, or has
  returned.\<close>

definition finalizing :: "nat \<Rightarrow> nat \<Rightarrow> engine \<Rightarrow> bool" where
  "finalizing tid cid s =
     (case map_of (tasks s) tid of
        None \<Rightarrow> True
      | Some stack \<Rightarrow> (case stack of [FinEntry c sy ref ids] \<Rightarrow> c = cid | _ \<Rightarrow> False))"

text \<open>The reference price that \<open>closePosition\<close> reads for an attempt: from the latest
  ticker of the symbol the ask (to buy back) or the bid (to sell), else its mark price,
  else its last price; with no ticker on record, the entry price of the position.\<close>

definition closeReference :: "symbol \<Rightarrow> nat \<Rightarrow> TradeSide \<Rightarrow> engine \<Rightarrow> real option" where
  "closeReference sy ref closeSide s =
     (case map_of (latestTickers s) sy of
        Some ticker \<Rightarrow>
          if closeSide = Buy
          then nullish (askPrice ticker) (nullish (markPrice ticker) (lastPrice ticker))
          else nullish (bidPrice ticker) (nullish (markPrice ticker) (lastPrice ticker))
      | None \<Rightarrow> map_option ap_entryPrice (map_of (heap s) ref))"

text \<open>The closing order of an attempt.\<close>

definition closeInput :: "symbol \<Rightarrow> TradeSide \<Rightarrow> real \<Rightarrow> real \<Rightarrow> LimitOrderInput" where
  "closeInput sy closeSide price currentSize =
     \<lparr> in_symbol = sy, in_side = closeSide, in_price = price, in_qty = currentSize,
       in_reduceOnly = True \<rparr>"

text \<open>
  The close loop as the specification words it, over the answers of the attempts and with
  \<open>left\<close> attempts to go: query the open quantity; if the query fails, go to the next
  attempt; if the quantity is zero, stop; if no positive reference price is on record,
  stop; otherwise place the order and go to the next attempt.  The result is the number of
  orders that went out to the venue and whether the loop has ended.
\<close>

fun close_spec ::
  "js_runtime \<Rightarrow> real option \<Rightarrow> symbol \<Rightarrow> TradeSide \<Rightarrow> nat \<Rightarrow> (position_response \<times> order_env) list
     \<Rightarrow> nat \<times> bool" where
  "close_spec rt price sy side left [] = (0, left = 0)"
| "close_spec rt price sy side left (a # rest) =
     (if left = 0 then (0, True)
      else (case getPositionSize rt (fst a) of
              Inl e \<Rightarrow> close_spec rt price sy side (left - 1) rest
            | Inr currentSize \<Rightarrow>
                if currentSize \<le> 0 \<or> bad_price price then (0, True)
                else (case close_spec rt price sy side (left - 1) rest of
                        (n, ended) \<Rightarrow>
                          (length (snd (placeLimitOrder rt (snd a)
                                      (closeInput sy side (the price) currentSize))) + n,
                           ended))))"

text \<open>After an attempt the loop goes on: the reference price is as before, and the call is
  at the head of the next attempt or, after the last one, in \<open>finalizePosition\<close>.\<close>

definition resumes :: "nat \<Rightarrow> nat \<Rightarrow> symbol \<Rightarrow> nat \<Rightarrow> TradeSide \<Rightarrow> nat \<Rightarrow> engine \<Rightarrow> engine \<Rightarrow> bool" where
  "resumes tid cid sy ref side attempt s s' =
     (closeReference sy ref side s' = closeReference sy ref side s
      \<and> (if Suc attempt \<le> MAX_CLOSE_ATTEMPTS
         then \<not> exited s' \<and> map_of (tasks s') tid = Some [CloseSize cid sy ref side (Suc attempt)]
         else finalizing tid cid s'))"

text \<open>An attempt that reads a positive size and whose order goes out to the venue.\<close>

definition submits ::
  "js_runtime \<Rightarrow> real option \<Rightarrow> symbol \<Rightarrow> TradeSide \<Rightarrow> position_response \<times> order_env \<Rightarrow> bool" where
  "submits rt price sy side a =
     (case getPositionSize rt (fst a) of
        Inl e \<Rightarrow> False
      | Inr currentSize \<Rightarrow>
          0 < currentSize
          \<and> length (snd (placeLimitOrder rt (snd a) (closeInput sy side (the price) currentSize))) = 1)"

text \<open>The symbols with a schedule entry, and those with an open position.\<close>

definition sched_keys :: "engine \<Rightarrow> symbol set" where
  "sched_keys s = dom (map_of (schedules s))"

definition act_keys :: "engine \<Rightarrow> symbol set" where
  "act_keys s = dom (map_of (activePositions s))"

text \<open>No symbol is in both tables.\<close>

definition exclusive :: "engine \<Rightarrow> bool" where
  "exclusive s = (sched_keys s \<inter> act_keys s = {})"

text \<open>A state change that adds to neither table.\<close>

definition shrink :: "engine \<Rightarrow> engine \<Rightarrow> bool" where
  "shrink s s' = (sched_keys s' \<subseteq> sched_keys s \<and> act_keys s' \<subseteq> act_keys s)"

text \<open>The two tables.\<close>

definition maps :: "engine \<Rightarrow> (symbol \<times> ScheduledTrade) list \<times> (symbol \<times> nat) list" where
  "maps s = (schedules s, activePositions s)"

text \<open>The symbols a step may arm (the selection of the poll it completes), and the symbol it may
  enter (the one whose entry order it completes).\<close>

definition frame_arms :: "js_runtime \<Rightarrow> frame \<Rightarrow> response \<Rightarrow> symbol set" where
  "frame_arms rt f resp =
     (case f of
        PollFetch \<Rightarrow>
          (case resp of
             R_tickers r \<Rightarrow>
               (case parseTickerResponse r of
                  Inl e \<Rightarrow> {}
                | Inr raw \<Rightarrow> symbol ` set (selectTop rt (fetchTopFundingTickers rt 50 raw)))
           | _ \<Rightarrow> {})
      | _ \<Rightarrow> {})"

definition frame_enters :: "frame \<Rightarrow> response \<Rightarrow> symbol set" where
  "frame_enters f resp =
     (case f of
        OpenOrder sy ft input \<Rightarrow> (case resp of R_order env \<Rightarrow> {sy} | _ \<Rightarrow> {})
      | _ \<Rightarrow> {})"

definition armable :: "js_runtime \<Rightarrow> engine \<Rightarrow> event \<Rightarrow> symbol set" where
  "armable rt s e =
     (case e of
        Respond tid now resp \<Rightarrow>
          (case map_of (tasks s) tid of
             Some (f # rest) \<Rightarrow> if exited s then {} else frame_arms rt f resp
           | _ \<Rightarrow> {})
      | _ \<Rightarrow> {})"

definition enterable :: "engine \<Rightarrow> event \<Rightarrow> symbol set" where
  "enterable s e =
     (case e of
        Respond tid now resp \<Rightarrow>
          (case map_of (tasks s) tid of
             Some (f # rest) \<Rightarrow> if exited s then {} else frame_enters f resp
           | _ \<Rightarrow> {})
      | _ \<Rightarrow> {})"

text \<open>A state change that adds at most \<open>A\<close> to the schedule and \<open>E\<close> to the positions.\<close>

definition grows :: "engine \<Rightarrow> engine \<Rightarrow> symbol set \<Rightarrow> symbol set \<Rightarrow> bool" where
  "grows s s' A E = (sched_keys s' \<subseteq> sched_keys s \<union> A \<and> act_keys s' \<subseteq> act_keys s \<union> E)"

text \<open>The frames of one call of \<open>finalizePosition\<close>.\<close>

definition fin_frame :: "nat \<Rightarrow> symbol \<Rightarrow> frame \<Rightarrow> bool" where
  "fin_frame cid sy f =
     (case f of
        FinEntry c y ref ids \<Rightarrow> c = cid \<and> y = sy
      | FinClose c y ref entrySummary ids \<Rightarrow> c = cid \<and> y = sy
      | FinFunding c y gross fees startTime endTime \<Rightarrow> c = cid \<and> y = sy
      | FinBalance c y gross fees funding \<Rightarrow> c = cid \<and> y = sy
      | FinShutdown c y \<Rightarrow> c = cid \<and> y = sy
      | _ \<Rightarrow> False)"

text \<open>The call \<open>cid\<close> of \<open>finalizePosition\<close> for \<open>sy\<close> is in progress in task \<open>tid\<close>.\<close>

definition in_finalize :: "nat \<Rightarrow> nat \<Rightarrow> symbol \<Rightarrow> engine \<Rightarrow> bool" where
  "in_finalize tid cid sy s =
     (case map_of (tasks s) tid of
        None \<Rightarrow> False
      | Some stack \<Rightarrow> list_ex (fin_frame cid sy) stack)"

text \<open>The answers that take a call of \<open>finalizePosition\<close> from its first \<open>await\<close> to its
  end: the executions of the entry order, those of the closing orders, the funding history
  and the wallet balance.\<close>

definition finalize_script ::
  "nat \<Rightarrow> real \<Rightarrow> (string \<Rightarrow> execution_response) \<Rightarrow> (string \<Rightarrow> execution_response)
     \<Rightarrow> funding_response \<Rightarrow> wallet_response \<Rightarrow> event list" where
  "finalize_script tid now entryVenue closeVenue history wallet =
     [Respond tid now (R_executions entryVenue), Respond tid now (R_executions closeVenue),
      Respond tid now (R_funding history), Respond tid now (R_wallet wallet)]"

section \<open>Example data\<close>

definition sizeResponse :: "string option \<Rightarrow> position_response" where
  "sizeResponse v = \<lparr> pr_credentials = True, pr_ok = True, pr_retCode = 0, pr_size = v \<rparr>"

definition executionResponse :: "execution list \<Rightarrow> execution_response" where
  "executionResponse l = \<lparr> er_credentials = True, er_ok = True, er_retCode = 0, er_list = Some l \<rparr>"

text \<open>Filters whose minimum is not a multiple of the step.\<close>

definition tightFilters :: InstrumentFilters where
  "tightFilters = \<lparr> minOrderQty = 1 + 1 / 10 ^ 10, qtyStep = 1, priceStep = 1 \<rparr>"

definition noInstrument :: instrument_response where
  "noInstrument = \<lparr> ir_ok = False, ir_retCode = 0, ir_hasInfo = False,
       ir_minOrderQty = None, ir_qtyStep = None, ir_tickSize = None \<rparr>"

definition cachedOrder :: "InstrumentFilters \<Rightarrow> string \<Rightarrow> order_env" where
  "cachedOrder filters linkId = \<lparr> oe_credentials = True, oe_cached = Some filters,
       oe_instrument = noInstrument, oe_orderLinkId = linkId, oe_ok = True, oe_retCode = 0 \<rparr>"

definition entryInput :: "real \<Rightarrow> LimitOrderInput" where
  "entryInput price = \<lparr> in_symbol = ''BTCUSDT'', in_side = Sell, in_price = price,
       in_qty = TRADE_NOTIONAL_USD / price, in_reduceOnly = False \<rparr>"

definition snapshot :: "string \<Rightarrow> real \<Rightarrow> string option \<Rightarrow> BybitFundingTicker" where
  "snapshot sy rate t = \<lparr> symbol = sy, fundingRate = rate, fundingRateAbs = \<bar>rate\<bar>,
       markPrice = Some 100, lastPrice = Some 100, bidPrice = Some 100, askPrice = Some 100,
       nextFundingTime = t \<rparr>"

definition exampleTickers :: "BybitFundingTicker list" where
  "exampleTickers = [snapshot ''AAA'' 0.01 (Some ''9000''), snapshot ''BBB'' (-0.02) (Some ''9000''),
                     snapshot ''CCC'' 0.01 (Some ''8000''), snapshot ''DDD'' 0.03 None]"

text \<open>The initial state after \<open>scheduleTrade\<close> has armed one symbol.\<close>

definition armedState :: engine where
  "armedState = scheduleTrade rt0 (snapshot ''BTCUSDT'' 0.01 (Some ''9000'')) 1000 initial"

definition okFilters :: InstrumentFilters where
  "okFilters = \<lparr> minOrderQty = 1, qtyStep = 1, priceStep = 1 \<rparr>"

definition walletResponse :: "string \<Rightarrow> wallet_response" where
  "walletResponse e = \<lparr> wr_credentials = True, wr_ok = True, wr_retCode = 0,
       wr_coins = Some [\<lparr> wc_coin = ''USDT'', wc_equity = Some e, wc_walletBalance = None,
                          wc_totalEquity = None \<rparr>] \<rparr>"

definition rawTicker :: "string \<Rightarrow> string \<Rightarrow> string \<Rightarrow> BybitTicker" where
  "rawTicker sy rate t = \<lparr> raw_symbol = sy, raw_fundingRate = Some rate,
       raw_lastPrice = Some ''100'', raw_markPrice = Some ''100'', raw_bidPrice = Some ''100'',
       raw_askPrice = Some ''100'', raw_nextFundingTime = Some t \<rparr>"

definition tickerResponse :: "BybitTicker list \<Rightarrow> ticker_response" where
  "tickerResponse l = \<lparr> tr_ok = True, tr_retCode = 0, tr_list = Some l \<rparr>"

definition noExecutions :: "string \<Rightarrow> execution_response" where
  "noExecutions = (\<lambda>id. \<lparr> er_credentials = True, er_ok = True, er_retCode = 0, er_list = Some [] \<rparr>)"

definition noFunding :: funding_response where
  "noFunding = \<lparr> fr_credentials = True, fr_ok = True, fr_retCode = 0, fr_list = Some [] \<rparr>"

text \<open>Two positions are opened, their close timers fire, both read size 0 and both calls of
  \<open>finalizePosition\<close> reach the wallet query.\<close>

definition twoTrades :: "event list" where
  "twoTrades =
     [Respond 0 0 (R_wallet (walletResponse ''1000'')),
      Respond 0 1000 (R_tickers (tickerResponse
         [rawTicker ''BTCUSDT'' ''0.01'' ''4000'', rawTicker ''ETHUSDT'' ''0.01'' ''4000''])),
      Respond 1 1100 (R_tickers (tickerResponse [rawTicker ''BTCUSDT'' ''0.01'' ''4000''])),
      Respond 2 1100 (R_tickers (tickerResponse [rawTicker ''ETHUSDT'' ''0.01'' ''4000''])),
      Respond 1 1200 (R_order (cachedOrder okFilters ''fund-1'')),
      Respond 2 1200 (R_order (cachedOrder okFilters ''fund-2'')),
      TimerFire 3 9000,
      TimerFire 5 9000,
      Respond 8 9100 (R_position (sizeResponse (Some ''0''))),
      Respond 10 9100 (R_position (sizeResponse (Some ''0''))),
      Respond 8 9200 (R_executions noExecutions),
      Respond 10 9200 (R_executions noExecutions),
      Respond 8 9300 (R_executions noExecutions),
      Respond 10 9300 (R_executions noExecutions),
      Respond 8 9400 (R_funding noFunding),
      Respond 10 9400 (R_funding noFunding)]"

text \<open>The state after \<open>twoTrades\<close>.\<close>

definition bothFinalizing :: engine where
  "bothFinalizing =
     \<lparr> schedules = [],
       activePositions = [(''BTCUSDT'', 4), (''ETHUSDT'', 6)],
       latestTickers =
         [(''BTCUSDT'', \<lparr> symbol = ''BTCUSDT'', fundingRate = 0.01, fundingRateAbs = 0.01,
              markPrice = Some 100, lastPrice = Some 100, bidPrice = Some 100,
              askPrice = Some 100, nextFundingTime = Some ''4000'' \<rparr>),
          (''ETHUSDT'', \<lparr> symbol = ''ETHUSDT'', fundingRate = 0.01, fundingRateAbs = 0.01,
              markPrice = Some 100, lastPrice = Some 100, bidPrice = Some 100,
              askPrice = Some 100, nextFundingTime = Some ''4000'' \<rparr>)],
       openingSymbols = {},
       tradingEnabled = True, startingEquity = Some 1000, drawdownLimitUsd = 30,
       pollHandle = True, monitorHandle = True,
       heap =
         [(4, \<lparr> ap_symbol = ''BTCUSDT'', ap_side = Sell, ap_qty = 5, ap_entryPrice = 100,
               ap_fundingTime = 4000, ap_openedAt = 1200, ap_entryOrderLinkId = ''fund-1'',
               ap_closeOrderLinkIds = [], ap_closeTimer = 3 \<rparr>),
          (6, \<lparr> ap_symbol = ''ETHUSDT'', ap_side = Sell, ap_qty = 5, ap_entryPrice = 100,
               ap_fundingTime = 4000, ap_openedAt = 1200, ap_entryOrderLinkId = ''fund-2'',
               ap_closeOrderLinkIds = [], ap_closeTimer = 5 \<rparr>)],
       timers = [],
       tasks = [(8, [FinBalance 7 ''BTCUSDT'' 0 0 0]), (10, [FinBalance 9 ''ETHUSDT'' 0 0 0])],
       nextId = 11,
       trace =
         [EntryOrderSent ''BTCUSDT''
            \<lparr> rq_symbol = ''BTCUSDT'', rq_side = Sell, rq_qty = 5, rq_price = 100,
              rq_reduceOnly = False, rq_orderLinkId = ''fund-1'' \<rparr>,
          EntryOrderSent ''ETHUSDT''
            \<lparr> rq_symbol = ''ETHUSDT'', rq_side = Sell, rq_qty = 5, rq_price = 100,
              rq_reduceOnly = False, rq_orderLinkId = ''fund-2'' \<rparr>],
       exited = False \<rparr>"

text \<open>One position is opened and its close timer fires.\<close>

definition oneTrade :: "event list" where
  "oneTrade =
     [Respond 0 0 (R_wallet (walletResponse ''1000'')),
      Respond 0 1000 (R_tickers (tickerResponse [rawTicker ''BTCUSDT'' ''0.01'' ''4000''])),
      Respond 1 1100 (R_tickers (tickerResponse [rawTicker ''BTCUSDT'' ''0.01'' ''4000''])),
      Respond 1 1200 (R_order (cachedOrder okFilters ''fund-1'')),
      TimerFire 2 9000]"

text \<open>An attempt of the close loop: the size read, and an order endpoint that accepts.\<close>

definition reading :: "string \<Rightarrow> string \<Rightarrow> position_response \<times> order_env" where
  "reading v linkId = (sizeResponse (Some v), cachedOrder okFilters linkId)"

definition unpricedTicker :: BybitTicker where
  "unpricedTicker = \<lparr> raw_symbol = ''BTCUSDT'', raw_fundingRate = Some ''0.01'',
       raw_lastPrice = None, raw_markPrice = None, raw_bidPrice = None,
       raw_askPrice = None, raw_nextFundingTime = Some ''4000'' \<rparr>"

text \<open>The state after \<open>oneTrade\<close>: \<open>closePosition\<close> waits for its first size reading.\<close>

definition closingState :: engine where
  "closingState =
     \<lparr> schedules = [],
       activePositions = [(''BTCUSDT'', 3)],
       latestTickers =
         [(''BTCUSDT'', \<lparr> symbol = ''BTCUSDT'', fundingRate = 0.01, fundingRateAbs = 0.01,
              markPrice = Some 100, lastPrice = Some 100, bidPrice = Some 100,
              askPrice = Some 100, nextFundingTime = Some ''4000'' \<rparr>)],
       openingSymbols = {},
       tradingEnabled = True, startingEquity = Some 1000, drawdownLimitUsd = 30,
       pollHandle = True, monitorHandle = True,
       heap =
         [(3, \<lparr> ap_symbol = ''BTCUSDT'', ap_side = Sell, ap_qty = 5, ap_entryPrice = 100,
               ap_fundingTime = 4000, ap_openedAt = 1200, ap_entryOrderLinkId = ''fund-1'',
               ap_closeOrderLinkIds = [], ap_closeTimer = 2 \<rparr>)],
       timers = [],
       tasks = [(5, [CloseSize 4 ''BTCUSDT'' 3 Buy 1])],
       nextId = 6,
       trace =
         [EntryOrderSent ''BTCUSDT''
            \<lparr> rq_symbol = ''BTCUSDT'', rq_side = Sell, rq_qty = 5, rq_price = 100,
              rq_reduceOnly = False, rq_orderLinkId = ''fund-1'' \<rparr>],
       exited = False \<rparr>"

text \<open>A poll whose ticker for the open symbol carries no price.\<close>

definition unpricedPoll :: "event list" where
  "unpricedPoll = [PollTick, Respond 6 9050 (R_tickers (tickerResponse [unpricedTicker]))]"

text \<open>The state after \<open>oneTrade\<close> and \<open>unpricedPoll\<close>.\<close>

definition unpricedState :: engine where
  "unpricedState = run rt0 initial (oneTrade @ unpricedPoll)"

text \<open>A position is opened; the next poll reports a new event time inside the window.\<close>

definition armWhileOpen :: "event list" where
  "armWhileOpen =
     [Respond 0 0 (R_wallet (walletResponse ''1000'')),
      Respond 0 1000 (R_tickers (tickerResponse [rawTicker ''BTCUSDT'' ''0.01'' ''4000''])),
      Respond 1 1100 (R_tickers (tickerResponse [rawTicker ''BTCUSDT'' ''0.01'' ''4000''])),
      Respond 1 1200 (R_order (cachedOrder okFilters ''fund-1'')),
      PollTick,
      Respond 4 2000 (R_tickers (tickerResponse [rawTicker ''BTCUSDT'' ''0.01'' ''11000'']))]"

text \<open>\<open>closingState\<close> with a poll under way, answered with another symbol.\<close>

definition pollingState :: engine where
  "pollingState = step rt0 closingState PollTick"

definition otherSymbolPoll :: event where
  "otherSymbolPoll = Respond 6 9050 (R_tickers (tickerResponse [rawTicker ''ETHUSDT'' ''0.01'' ''15000'']))"

text \<open>One position is opened; its close timer is pending.\<close>

definition openedTrade :: "event list" where
  "openedTrade =
     [Respond 0 0 (R_wallet (walletResponse ''1000'')),
      Respond 0 1000 (R_tickers (tickerResponse [rawTicker ''BTCUSDT'' ''0.01'' ''4000''])),
      Respond 1 1100 (R_tickers (tickerResponse [rawTicker ''BTCUSDT'' ''0.01'' ''4000''])),
      Respond 1 1200 (R_order (cachedOrder okFilters ''fund-1''))]"

definition openedPosition :: ActivePosition where
  "openedPosition = \<lparr> ap_symbol = ''BTCUSDT'', ap_side = Sell, ap_qty = 5, ap_entryPrice = 100,
       ap_fundingTime = 4000, ap_openedAt = 1200, ap_entryOrderLinkId = ''fund-1'',
       ap_closeOrderLinkIds = [], ap_closeTimer = 2 \<rparr>"

text \<open>A trade with entry fee 0.50, closing fee 1.00, closing PnL 12.00 and funding fee 0.80:
  the answers of the execution and funding endpoints, and the events that take the call of
  \<open>closingState\<close> through one closing order and through \<open>finalizePosition\<close>, where the
  wallet shows an equity of 1005 against 1000 at the start.\<close>

definition tradeExecutions :: "string \<Rightarrow> execution_response" where
  "tradeExecutions linkId =
     (if linkId = ''fund-1''
      then executionResponse [\<lparr> execFee = Some ''0.50'', execType = ''Trade'', execPnl = Some ''0'' \<rparr>]
      else executionResponse [\<lparr> execFee = Some ''1.00'', execType = ''Trade'', execPnl = Some ''12.00'' \<rparr>])"

definition tradeFunding :: funding_response where
  "tradeFunding = \<lparr> fr_credentials = True, fr_ok = True, fr_retCode = 0,
       fr_list = Some [\<lparr> fe_execTime = Some ''4000'', fe_timestamp = None,
                          fe_fundingFee = Some ''0.80'', fe_funding = None \<rparr>] \<rparr>"

definition closedTrade :: "event list" where
  "closedTrade = close_script 5 9100 [reading ''5'' ''c1'', reading ''0'' ''c2'']"

definition settledTrade :: "event list" where
  "settledTrade =
     closedTrade @ finalize_script 5 9500 tradeExecutions tradeExecutions tradeFunding
                     (walletResponse ''1005'')"

text \<open>The call of \<open>closingState\<close> after four attempts and the order of the fifth: it waits
  in the pause of the last attempt.  Every attempt read size 3 and sent the order below.\<close>

definition lastAttempt :: "event list" where
  "lastAttempt =
     close_script 5 9100 [reading ''3'' ''c1'', reading ''3'' ''c2'', reading ''3'' ''c3'',
                          reading ''3'' ''c4'']
     @ [Respond 5 9100 (R_position (sizeResponse (Some ''3''))),
        Respond 5 9100 (R_order (cachedOrder okFilters ''c5''))]"

definition closeOrder :: "string \<Rightarrow> order_request" where
  "closeOrder linkId = \<lparr> rq_symbol = ''BTCUSDT'', rq_side = Buy, rq_qty = 3, rq_price = 100,
       rq_reduceOnly = True, rq_orderLinkId = linkId \<rparr>"

section \<open>Evaluation rules\<close>

text \<open>The defining equations that evaluate a run of the event loop on concrete events.\<close>

lemmas engine_defs = run_def step.simps advance_def continue_ret.simps set_task_def spawn_def
  main_balance_def pollTickers_def pollTickers_fetched_def parseTickerResponse_def
  fetchTopFundingTickers_def transformTicker_def parseNumber_def selectTop_def js_sort_def
  selectionCompare_def parseFundingTimestamp_def scheduleTrade_def openPosition_def
  openPosition_refreshed_def openPosition_ordered_def openPosition_finally_def
  fetchFundingTicker_def placeLimitOrder_def prepareLimitOrder_def getInstrumentFilters_def
  normaliseQty_def normalisePrice_def Math_round_def toFixed_value_def decimalPlaces_def
  setTimeout_def clearTimeout_def clearSchedule_def clearActivePosition_def
  closePosition_def closePosition_loop_def closePosition_sized_def closePosition_ordered_def
  finalizePosition_def finalizePosition_entry_def finalizePosition_close_def
  finalizePosition_funding_def finalizePosition_balance_def finalizePosition_caught_def
  shutdown_def shutdown_loop.simps getPositionSize_def getWalletBalance_def toNum_def
  summarizeExecutions_def summarizeOne_def getOrderExecutions_def fetchFundingFee_def
  getFundingHistory_def sum_finite_def ACCOUNT_COIN_def
  PRE_FUNDING_MS_def POST_FUNDING_MS_def FUNDING_THRESHOLD_def TRADE_NOTIONAL_USD_def
  MAX_CLOSE_ATTEMPTS_def MAX_DRAWDOWN_PCT_def
  rt0_def decimal_val_def digit_val_def stepString_def
  okFilters_def noInstrument_def cachedOrder_def walletResponse_def rawTicker_def
  tickerResponse_def sizeResponse_def noExecutions_def noFunding_def
  List.map_filter_def Let_def

text \<open>\<open>finalizePosition\<close> from the answer of the wallet query, by cases.\<close>

lemma finalizePosition_balance_cases:
  "finalizePosition_balance rt resp cid sy gross fees funding s =
     (let s0 = s\<lparr> trace := trace s @ closed_log rt resp sy gross fees funding s \<rparr> in
      if breach rt resp s \<and> tradingEnabled s
      then (case shutdown ByBreach (s0\<lparr> tradingEnabled := False \<rparr>) of
              (s1, fs) \<Rightarrow>
                if fs = [] then (clearActivePosition sy s1, [])
                else (s1, fs @ [FinShutdown cid sy]))
      else (clearActivePosition sy s0, []))"
  by (auto simp: finalizePosition_balance_def closed_log_def breach_def Let_def
      split: sum.splits option.splits)

section \<open>Properties of the gateway helpers\<close>

text \<open>
  Claim C9.  \<open>getPositionSize\<close> fails exactly when the credentials are missing, the HTTP
  status is not ok or the venue's return code is not 0 (the close loop catches that and
  retries).  Otherwise it returns a number that is never negative: the absolute value of
  the reported size, and 0 when the size field is missing or does not convert to a finite
  number.  (\<open>Number("0")\<close> is 0 in every JavaScript runtime; it is the hypothesis.)
\<close>

theorem getPositionSize_nonneg:
  assumes "js_Number rt ''0'' = Some 0"
  shows "(case getPositionSize rt resp of
            Inl e \<Rightarrow> \<not> (pr_credentials resp \<and> pr_ok resp \<and> pr_retCode resp = 0)
          | Inr v \<Rightarrow> pr_credentials resp \<and> pr_ok resp \<and> pr_retCode resp = 0 \<and> 0 \<le> v \<and>
              v = (case pr_size resp of
                     None \<Rightarrow> 0
                   | Some sz \<Rightarrow> (case js_Number rt sz of None \<Rightarrow> 0 | Some parsed \<Rightarrow> \<bar>parsed\<bar>)))"
  using assms by (simp add: getPositionSize_def split: option.splits)

theorem getPositionSize_nonneg_witness:
  "js_Number rt0 ''0'' = Some 0 \<and> getPositionSize rt0 (sizeResponse (Some ''-3'')) = Inr 3
   \<and> getPositionSize rt0 (sizeResponse None) = Inr 0
   \<and> getPositionSize rt0 (sizeResponse (Some ''abc'')) = Inr 0"
proof -
  have h: "js_Number rt0 ''0'' = Some 0" by (simp add: rt0_def decimal_val_def digit_val_def)
  have a: "js_Number rt0 ''-3'' = Some (-3)" by (simp add: rt0_def decimal_val_def digit_val_def)
  have b: "js_Number rt0 ''abc'' = None" by (simp add: rt0_def decimal_val_def digit_val_def)
  show ?thesis
    using h getPositionSize_nonneg [OF h, of "sizeResponse (Some ''-3'')"]
      getPositionSize_nonneg [OF h, of "sizeResponse None"]
      getPositionSize_nonneg [OF h, of "sizeResponse (Some ''abc'')"]
    by (simp add: sizeResponse_def a b split: sum.splits)
qed

lemma getInstrumentFilters_step:
  "getInstrumentFilters rt None resp = Inr filters \<Longrightarrow>
     qtyStep filters \<noteq> 0 \<and> minOrderQty filters \<noteq> 0 \<and> priceStep filters \<noteq> 0"
  by (auto simp: getInstrumentFilters_def Let_def split: if_splits option.splits
      elim!: falsy_num.elims)

lemma normaliseQty_cases:
  "normaliseQty rt rawQty filters =
     (if conformedQty rt rawQty filters < minOrderQty filters
      then Inl (BelowMinimum (conformedQty rt rawQty filters) (minOrderQty filters))
      else Inr (conformedQty rt rawQty filters, decimalPlaces rt (qtyStep filters)))"
  by (simp add: normaliseQty_def conformedQty_def requestedUnits_def minUnits_def Let_def)

lemma conformedQty_least:
  assumes "mono (js_double rt)" and "0 < qtyStep filters"
  shows "leastQty rt filters \<le> conformedQty rt rawQty filters"
proof -
  have "real_of_int (minUnits rt filters) * qtyStep filters
          \<le> real_of_int (max (requestedUnits rt rawQty filters) (minUnits rt filters)) * qtyStep filters"
    using assms(2) by (simp add: mult_right_mono)
  then show ?thesis using assms(1) by (simp add: leastQty_def conformedQty_def monoD)
qed

lemma placeLimitOrder_prepared:
  assumes "getInstrumentFilters rt (oe_cached env) (oe_instrument env) = Inr filters"
    and "oe_credentials env"
  shows "(normaliseQty rt (in_qty input) filters = Inl e \<longrightarrow> placeLimitOrder rt env input = (Inl e, []))
       \<and> (normaliseQty rt (in_qty input) filters = Inr qp \<longrightarrow>
            length (snd (placeLimitOrder rt env input)) = 1
            \<and> rq_qty (hd (snd (placeLimitOrder rt env input))) = toFixed_value (fst qp) (snd qp))"
  using assms
  by (cases "normalisePrice rt (in_price input) (priceStep filters)")
     (auto simp: placeLimitOrder_def prepareLimitOrder_def Let_def split: prod.splits)

text \<open>
  Claim C4, as the code has it.  \<open>normaliseQty\<close> cuts the raw quantity down to whole steps
  and raises it to the fewest steps that reach the minimum (less \<open>1e-9\<close> of a step).  It
  throws the sizing error exactly when the quantity it arrives at is still below the
  minimum; then \<open>placeLimitOrder\<close> rejects with that error before any request is sent and
  \<open>openPosition\<close> ends with no position and no order.  With a rounding that is monotone
  (as rounding to the nearest double is) and a positive step, the error means that the
  fewest accepted steps themselves fall short of the minimum: it is a property of the
  filters, whatever the raw quantity.  A quantity that \<open>normaliseQty\<close> returns is never
  below the minimum, and its order is sent; a raw quantity of no more steps than the fewest
  accepted is raised to them.
\<close>

theorem sizing_error_below_minimum:
  assumes "getInstrumentFilters rt (oe_cached env) (oe_instrument env) = Inr filters"
    and "oe_credentials env"
    and "mono (js_double rt)"
    and "0 < qtyStep filters"
  shows "(conformedQty rt (in_qty input) filters < minOrderQty filters \<longrightarrow>
            normaliseQty rt (in_qty input) filters
              = Inl (BelowMinimum (conformedQty rt (in_qty input) filters) (minOrderQty filters))
          \<and> leastQty rt filters < minOrderQty filters
          \<and> placeLimitOrder rt env input
              = (Inl (BelowMinimum (conformedQty rt (in_qty input) filters) (minOrderQty filters)), [])
          \<and> openPosition_ordered rt now env sy fundingTime input s = (openPosition_finally sy s, [])
          \<and> activePositions (openPosition_finally sy s) = activePositions s
          \<and> trace (openPosition_finally sy s) = trace s)
       \<and> (\<not> conformedQty rt (in_qty input) filters < minOrderQty filters \<longrightarrow>
            normaliseQty rt (in_qty input) filters
              = Inr (conformedQty rt (in_qty input) filters, decimalPlaces rt (qtyStep filters))
          \<and> length (snd (placeLimitOrder rt env input)) = 1
          \<and> rq_qty (hd (snd (placeLimitOrder rt env input)))
              = toFixed_value (conformedQty rt (in_qty input) filters)
                  (decimalPlaces rt (qtyStep filters)))
       \<and> (minOrderQty filters \<le> leastQty rt filters \<longrightarrow>
            normaliseQty rt rawQty filters
              = Inr (conformedQty rt rawQty filters, decimalPlaces rt (qtyStep filters)))
       \<and> (requestedUnits rt rawQty filters \<le> minUnits rt filters \<longrightarrow>
            conformedQty rt rawQty filters = leastQty rt filters)"
proof -
  let ?q = "conformedQty rt (in_qty input) filters"
  have n1: "?q < minOrderQty filters \<Longrightarrow>
      normaliseQty rt (in_qty input) filters = Inl (BelowMinimum ?q (minOrderQty filters))"
    by (simp add: normaliseQty_cases)
  have n2: "\<not> ?q < minOrderQty filters \<Longrightarrow>
      normaliseQty rt (in_qty input) filters = Inr (?q, decimalPlaces rt (qtyStep filters))"
    by (simp add: normaliseQty_cases)
  have l: "?q < minOrderQty filters \<Longrightarrow> leastQty rt filters < minOrderQty filters"
    using conformedQty_least [OF assms(3,4), of "in_qty input"] by simp
  have p: "?q < minOrderQty filters \<Longrightarrow>
      placeLimitOrder rt env input = (Inl (BelowMinimum ?q (minOrderQty filters)), [])"
    using placeLimitOrder_prepared [OF assms(1,2), of input] n1 by simp
  have q: "?q < minOrderQty filters \<Longrightarrow>
      openPosition_ordered rt now env sy fundingTime input s = (openPosition_finally sy s, [])"
    using p by (simp add: openPosition_ordered_def openPosition_finally_def)
  have r: "activePositions (openPosition_finally sy s) = activePositions s
        \<and> trace (openPosition_finally sy s) = trace s"
    by (simp add: openPosition_finally_def)
  have o: "\<not> ?q < minOrderQty filters \<Longrightarrow>
      length (snd (placeLimitOrder rt env input)) = 1
      \<and> rq_qty (hd (snd (placeLimitOrder rt env input)))
          = toFixed_value ?q (decimalPlaces rt (qtyStep filters))"
    using placeLimitOrder_prepared [OF assms(1,2), of input] n2 by simp
  have g: "minOrderQty filters \<le> leastQty rt filters \<Longrightarrow>
      normaliseQty rt rawQty filters
        = Inr (conformedQty rt rawQty filters, decimalPlaces rt (qtyStep filters))"
    using conformedQty_least [OF assms(3,4), of rawQty] by (simp add: normaliseQty_cases)
  have u: "requestedUnits rt rawQty filters \<le> minUnits rt filters \<Longrightarrow>
      conformedQty rt rawQty filters = leastQty rt filters"
    by (simp add: conformedQty_def leastQty_def max_def)
  show ?thesis using n1 n2 l p q r o g u by blast
qed

theorem sizing_error_below_minimum_witness:
  "getInstrumentFilters rt0 (oe_cached (cachedOrder tightFilters ''fund-1''))
       (oe_instrument (cachedOrder tightFilters ''fund-1'')) = Inr tightFilters
   \<and> oe_credentials (cachedOrder tightFilters ''fund-1'')
   \<and> mono (js_double rt0)
   \<and> 0 < qtyStep tightFilters
   \<and> conformedQty rt0 (in_qty (entryInput 1000)) tightFilters < minOrderQty tightFilters
   \<and> leastQty rt0 tightFilters < minOrderQty tightFilters
   \<and> placeLimitOrder rt0 (cachedOrder tightFilters ''fund-1'') (entryInput 1000)
       = (Inl (BelowMinimum 1 (1 + 1 / 10 ^ 10)), [])
   \<and> \<not> conformedQty rt0 (in_qty (entryInput 100)) tightFilters < minOrderQty tightFilters
   \<and> normaliseQty rt0 (in_qty (entryInput 100)) tightFilters = Inr (5, 0)
   \<and> length (snd (placeLimitOrder rt0 (cachedOrder tightFilters ''fund-1'') (entryInput 100))) = 1
   \<and> requestedUnits rt0 (1 / 2) tightFilters \<le> minUnits rt0 tightFilters
   \<and> conformedQty rt0 (1 / 2) tightFilters = leastQty rt0 tightFilters"
proof -
  have a: "getInstrumentFilters rt0 (oe_cached (cachedOrder tightFilters ''fund-1''))
       (oe_instrument (cachedOrder tightFilters ''fund-1'')) = Inr tightFilters"
    by (simp add: getInstrumentFilters_def cachedOrder_def)
  have c: "oe_credentials (cachedOrder tightFilters ''fund-1'')" by (simp add: cachedOrder_def)
  have m: "mono (js_double rt0)" by (simp add: rt0_def mono_def)
  have b: "0 < qtyStep tightFilters" by (simp add: tightFilters_def)
  have d: "conformedQty rt0 (in_qty (entryInput 1000)) tightFilters = 1"
    by (simp add: conformedQty_def requestedUnits_def minUnits_def entryInput_def tightFilters_def
        TRADE_NOTIONAL_USD_def rt0_def)
  have e: "conformedQty rt0 (in_qty (entryInput 100)) tightFilters = 5"
    by (simp add: conformedQty_def requestedUnits_def minUnits_def entryInput_def tightFilters_def
        TRADE_NOTIONAL_USD_def rt0_def)
  have u: "requestedUnits rt0 (1 / 2) tightFilters = 0 \<and> minUnits rt0 tightFilters = 1"
    by (simp add: requestedUnits_def minUnits_def tightFilters_def rt0_def)
  have mq: "minOrderQty tightFilters = 1 + 1 / 10 ^ 10" by (simp add: tightFilters_def)
  have dp: "decimalPlaces rt0 (qtyStep tightFilters) = 0"
    by (simp add: decimalPlaces_def rt0_def stepString_def tightFilters_def)
  show ?thesis
    using a b c m d e u mq dp
      sizing_error_below_minimum [OF a c m b, of "entryInput 1000" _ _ _ _ "1 / 2"]
      sizing_error_below_minimum [OF a c m b, of "entryInput 100" _ _ _ _ "1 / 2"]
    by simp
qed

text \<open>
  A raw quantity of half a contract, with a minimum of one contract and a step of one:
  cut down to whole steps it is 0, below the minimum, and \<open>normaliseQty\<close> raises it to 1;
  \<open>placeLimitOrder\<close> sends the order for 1 contract.
\<close>

theorem sizing_raised_counterexample:
  "in_qty (entryInput 1000) = 1 / 2
   \<and> real_of_int \<lfloor>in_qty (entryInput 1000) / qtyStep okFilters\<rfloor> * qtyStep okFilters
       < minOrderQty okFilters
   \<and> normaliseQty rt0 (in_qty (entryInput 1000)) okFilters = Inr (1, 0)
   \<and> placeLimitOrder rt0 (cachedOrder okFilters ''fund-1'') (entryInput 1000)
       = (Inr \<lparr> or_orderLinkId = ''fund-1'', or_qty = 1, or_price = 1000 \<rparr>,
          [\<lparr> rq_symbol = ''BTCUSDT'', rq_side = Sell, rq_qty = 1, rq_price = 1000,
             rq_reduceOnly = False, rq_orderLinkId = ''fund-1'' \<rparr>])"
  by (simp add: entryInput_def okFilters_def cachedOrder_def noInstrument_def
      placeLimitOrder_def prepareLimitOrder_def getInstrumentFilters_def normaliseQty_def
      normalisePrice_def Math_round_def toFixed_value_def decimalPlaces_def rt0_def
      stepString_def split_dot.simps TRADE_NOTIONAL_USD_def Let_def)

section \<open>Properties of the trade accounting\<close>

lemma js_unique_set: "set (js_unique seen xs) = set xs - set seen"
  by (induction seen xs rule: js_unique.induct) auto

lemma js_unique_distinct: "distinct (js_unique seen xs)"
  by (induction seen xs rule: js_unique.induct) (auto simp: js_unique_set)

lemma foldl_summary:
  "foldl (\<lambda>acc summary. \<lparr> fee = fee acc + fee summary, tradePnl = tradePnl acc + tradePnl summary \<rparr>) a xs
     = \<lparr> fee = fee a + sum_list (map fee xs), tradePnl = tradePnl a + sum_list (map tradePnl xs) \<rparr>"
  by (induction xs arbitrary: a) (auto simp: algebra_simps)

lemma summarizeExecutions_sum:
  "summarizeExecutions rt venue ids =
     \<lparr> fee = (\<Sum>id \<in> set ids - {[]}. fee (summarizeOne rt (venue id))),
       tradePnl = (\<Sum>id \<in> set ids - {[]}. tradePnl (summarizeOne rt (venue id))) \<rparr>"
proof -
  let ?u = "js_unique [] (filter (\<lambda>id. id \<noteq> []) ids)"
  have d: "distinct ?u" by (rule js_unique_distinct)
  have s: "set ?u = set ids - {[]}" by (auto simp: js_unique_set)
  have f: "sum_list (map (\<lambda>id. fee (summarizeOne rt (venue id))) ?u)
             = (\<Sum>id \<in> set ids - {[]}. fee (summarizeOne rt (venue id)))"
    using sum_list_distinct_conv_sum_set [OF d, of "\<lambda>id. fee (summarizeOne rt (venue id))"] s by simp
  have p: "sum_list (map (\<lambda>id. tradePnl (summarizeOne rt (venue id))) ?u)
             = (\<Sum>id \<in> set ids - {[]}. tradePnl (summarizeOne rt (venue id)))"
    using sum_list_distinct_conv_sum_set [OF d, of "\<lambda>id. tradePnl (summarizeOne rt (venue id))"] s by simp
  show ?thesis
  proof (cases "?u = []")
    case True
    then have e: "set ids - {[]} = {}" using s by simp
    show ?thesis unfolding e using True by (simp add: summarizeExecutions_def)
  next
    case False
    then show ?thesis using f p
      by (simp add: summarizeExecutions_def foldl_summary comp_def)
  qed
qed

lemma summarizeOne_fee_nonneg: "0 \<le> fee (summarizeOne rt resp)"
  by (simp add: summarizeOne_def Let_def split: sum.splits)

text \<open>
  Claim C10.  \<open>summarizeExecutions\<close> returns \<open>{fee: 0, tradePnl: 0}\<close> for an empty list;
  its result is the sum of the per-order summaries over the set of distinct non-empty
  order references, so a repeated reference is counted once; the fee is never negative,
  because every order's fee sum enters in absolute value; and an order whose execution
  query fails contributes \<open>{0, 0}\<close> to the sum.
\<close>

theorem summarizeExecutions_props:
  "summarizeExecutions rt venue [] = \<lparr> fee = 0, tradePnl = 0 \<rparr>
   \<and> summarizeExecutions rt venue ids =
       \<lparr> fee = (\<Sum>id \<in> set ids - {[]}. fee (summarizeOne rt (venue id))),
         tradePnl = (\<Sum>id \<in> set ids - {[]}. tradePnl (summarizeOne rt (venue id))) \<rparr>
   \<and> summarizeExecutions rt venue (ids @ ids) = summarizeExecutions rt venue ids
   \<and> 0 \<le> fee (summarizeExecutions rt venue ids)
   \<and> fee (summarizeOne rt (executionResponse executions))
       = \<bar>sum_finite (map (\<lambda>exec. case execFee exec of None \<Rightarrow> Some 0
                                   | Some v \<Rightarrow> js_Number rt v) executions)\<bar>
   \<and> summarizeOne rt (resp\<lparr> er_ok := False \<rparr>) = \<lparr> fee = 0, tradePnl = 0 \<rparr>
   \<and> summarizeOne rt (resp\<lparr> er_credentials := False \<rparr>) = \<lparr> fee = 0, tradePnl = 0 \<rparr>"
proof -
  have a: "summarizeExecutions rt venue [] = \<lparr> fee = 0, tradePnl = 0 \<rparr>"
    by (simp add: summarizeExecutions_def)
  have c: "summarizeExecutions rt venue (ids @ ids) = summarizeExecutions rt venue ids"
    by (simp add: summarizeExecutions_sum)
  have d: "0 \<le> fee (summarizeExecutions rt venue ids)"
    by (simp add: summarizeExecutions_sum sum_nonneg summarizeOne_fee_nonneg)
  have e: "fee (summarizeOne rt (executionResponse executions))
       = \<bar>sum_finite (map (\<lambda>exec. case execFee exec of None \<Rightarrow> Some 0
                                   | Some v \<Rightarrow> js_Number rt v) executions)\<bar>"
    by (simp add: summarizeOne_def getOrderExecutions_def executionResponse_def Let_def)
  have f: "summarizeOne rt (resp\<lparr> er_ok := False \<rparr>) = \<lparr> fee = 0, tradePnl = 0 \<rparr>"
    by (simp add: summarizeOne_def getOrderExecutions_def)
  have g: "summarizeOne rt (resp\<lparr> er_credentials := False \<rparr>) = \<lparr> fee = 0, tradePnl = 0 \<rparr>"
    by (simp add: summarizeOne_def getOrderExecutions_def)
  show ?thesis using a c d e f g summarizeExecutions_sum by blast
qed


section \<open>Properties of the selection\<close>

lemma selectionCompare_le: "selectionCompare rt a b \<le> 0 \<longleftrightarrow> ranks_before rt a b"
  by (auto simp: selectionCompare_def ranks_before_def Let_def split: option.splits)

lemma ranks_before_total: "ranks_before rt a b \<or> ranks_before rt b a"
  by (auto simp: ranks_before_def split: option.splits)

lemma ranks_before_trans:
  "ranks_before rt a b \<Longrightarrow> ranks_before rt b c \<Longrightarrow> ranks_before rt a c"
  by (auto simp: ranks_before_def split: option.splits)

lemma set_insert_cmp: "set (insert_cmp cmp x xs) = insert x (set xs)"
  by (induction xs) auto

lemma set_js_sort: "set (js_sort cmp xs) = set xs"
  by (induction xs) (auto simp: js_sort_def set_insert_cmp)

lemma length_insert_cmp: "length (insert_cmp cmp x xs) = Suc (length xs)"
  by (induction xs) auto

lemma length_js_sort: "length (js_sort cmp xs) = length xs"
  by (induction xs) (auto simp: js_sort_def length_insert_cmp)

lemma sorted_insert_cmp:
  assumes tot: "\<And>a b. cmp a b \<le> 0 \<or> cmp b a \<le> 0"
    and tr: "\<And>a b c. cmp a b \<le> 0 \<Longrightarrow> cmp b c \<le> 0 \<Longrightarrow> cmp a c \<le> 0"
  shows "sorted_wrt (\<lambda>a b. cmp a b \<le> 0) xs \<Longrightarrow>
         sorted_wrt (\<lambda>a b. cmp a b \<le> 0) (insert_cmp cmp x xs)"
proof (induction xs)
  case Nil
  then show ?case by simp
next
  case (Cons y ys)
  show ?case
  proof (cases "cmp x y \<le> 0")
    case True
    then have "\<forall>z \<in> set ys. cmp x z \<le> 0" using Cons.prems tr by auto
    then show ?thesis using True Cons.prems by simp
  next
    case False
    then have yx: "cmp y x \<le> 0" using tot by blast
    have "sorted_wrt (\<lambda>a b. cmp a b \<le> 0) (insert_cmp cmp x ys)"
      using Cons by simp
    then show ?thesis using False yx Cons.prems by (auto simp: set_insert_cmp)
  qed
qed

lemma sorted_js_sort:
  assumes tot: "\<And>a b. cmp a b \<le> 0 \<or> cmp b a \<le> 0"
    and tr: "\<And>a b c. cmp a b \<le> 0 \<Longrightarrow> cmp b c \<le> 0 \<Longrightarrow> cmp a c \<le> 0"
  shows "sorted_wrt (\<lambda>a b. cmp a b \<le> 0) (js_sort cmp xs)"
proof (induction xs)
  case Nil
  then show ?case by (simp add: js_sort_def)
next
  case (Cons x xs)
  have "js_sort cmp (x # xs) = insert_cmp cmp x (js_sort cmp xs)" by (simp add: js_sort_def)
  then show ?case using sorted_insert_cmp [of cmp, OF tot tr] Cons by simp
qed

lemma sorted_wrt_take: "sorted_wrt P xs \<Longrightarrow> sorted_wrt P (take n xs)"
  by (induction xs arbitrary: n) (auto simp: take_Cons split: nat.splits dest: in_set_takeD)

text \<open>
  Claim C6, as the code has it.  The selection of a poll cycle has at most 10 snapshots;
  each is one of the fetched snapshots and its event-time field is present and not empty
  (the filter tests the field, not whether it parses); and the list is ordered by
  descending absolute funding rate, ties by ascending event time, where an event time that
  does not parse counts as infinitely late.
\<close>

theorem selectTop_ranked:
  "length (selectTop rt tickers) \<le> 10
   \<and> (\<forall>t \<in> set (selectTop rt tickers). t \<in> set tickers \<and> truthy_str (nextFundingTime t))
   \<and> sorted_wrt (ranks_before rt) (selectTop rt tickers)"
proof -
  let ?f = "filter (\<lambda>ticker. truthy_str (nextFundingTime ticker)) tickers"
  have a: "length (selectTop rt tickers) \<le> 10" by (simp add: selectTop_def)
  have b: "\<forall>t \<in> set (selectTop rt tickers). t \<in> set tickers \<and> truthy_str (nextFundingTime t)"
  proof
    fix t assume "t \<in> set (selectTop rt tickers)"
    then have "t \<in> set (js_sort (selectionCompare rt) ?f)"
      unfolding selectTop_def by (rule in_set_takeD)
    then show "t \<in> set tickers \<and> truthy_str (nextFundingTime t)" by (simp add: set_js_sort)
  qed
  have "sorted_wrt (\<lambda>a b. selectionCompare rt a b \<le> 0) (js_sort (selectionCompare rt) ?f)"
  proof (rule sorted_js_sort)
    fix a b
    show "selectionCompare rt a b \<le> 0 \<or> selectionCompare rt b a \<le> 0"
      unfolding selectionCompare_le by (rule ranks_before_total)
  next
    fix a b c
    assume "selectionCompare rt a b \<le> 0" and "selectionCompare rt b c \<le> 0"
    then show "selectionCompare rt a c \<le> 0"
      unfolding selectionCompare_le by (rule ranks_before_trans)
  qed
  then have c: "sorted_wrt (ranks_before rt) (selectTop rt tickers)"
    unfolding selectTop_def selectionCompare_le by (rule sorted_wrt_take)
  show ?thesis using a b c by blast
qed

lemma rt0_parse:
  "parseFundingTimestamp rt0 (Some ''9000'') = Some 9000"
  "parseFundingTimestamp rt0 (Some ''8000'') = Some 8000"
  "parseFundingTimestamp rt0 (Some ''abc'') = None"
  "parseFundingTimestamp rt0 (Some ''20000'') = Some 20000"
  by (simp_all add: parseFundingTimestamp_def rt0_def decimal_val_def digit_val_def)

theorem selectTop_ranked_witness:
  "selectTop rt0 exampleTickers
     = [snapshot ''BBB'' (-0.02) (Some ''9000''), snapshot ''CCC'' 0.01 (Some ''8000''),
        snapshot ''AAA'' 0.01 (Some ''9000'')]
   \<and> length (selectTop rt0 exampleTickers) \<le> 10
   \<and> sorted_wrt (ranks_before rt0) (selectTop rt0 exampleTickers)"
proof -
  have "selectTop rt0 exampleTickers
     = [snapshot ''BBB'' (-0.02) (Some ''9000''), snapshot ''CCC'' 0.01 (Some ''8000''),
        snapshot ''AAA'' 0.01 (Some ''9000'')]"
    by (simp add: selectTop_def exampleTickers_def js_sort_def selectionCompare_def snapshot_def rt0_parse)
  then show ?thesis using selectTop_ranked [of rt0 exampleTickers] by simp
qed

text \<open>
  A snapshot whose event time is present but does not resolve is selected all the same.
\<close>

theorem selectTop_unresolvable_counterexample:
  "selectTop rt0 [snapshot ''AAA'' 0.01 (Some ''abc'')] = [snapshot ''AAA'' 0.01 (Some ''abc'')]
   \<and> parseFundingTimestamp rt0 (nextFundingTime (snapshot ''AAA'' 0.01 (Some ''abc''))) = None"
  by (simp add: selectTop_def js_sort_def snapshot_def rt0_parse)

section \<open>Properties of the scheduler\<close>

lemma map_of_delete_self: "map_of (AList.delete k al) k = None"
  by (simp add: AList.delete_eq map_of_eq_None_iff image_iff)

lemma schedules_clearTimeout [simp]: "schedules (clearTimeout t s) = schedules s"
  by (simp add: clearTimeout_def)

lemma clearSchedule_lookup: "map_of (schedules (clearSchedule sy s)) sy = None"
  by (simp add: clearSchedule_def Let_def map_of_delete_self split: option.splits)

lemma unschedule_lookup:
  "map_of (schedules (unschedule sy s)) sy = None"
  by (simp add: unschedule_def clearSchedule_lookup)

lemma schedules_spawn [simp]: "schedules (spawn st s) = schedules s"
  by (simp add: spawn_def)

lemma schedules_openPosition [simp]: "schedules (openPosition sy ft s) = schedules s"
  by (simp add: openPosition_def)

lemma scheduleTrade_cases:
  "scheduleTrade rt ticker now s =
     (case parseFundingTimestamp rt (nextFundingTime ticker) of
        None \<Rightarrow> s
      | Some fundingTime \<Rightarrow>
          if \<not> qualifies rt ticker now fundingTime \<or> armedFor s (symbol ticker) fundingTime then s
          else if fundingTime - PRE_FUNDING_MS - now > PRE_FUNDING_MS
            then unschedule (symbol ticker) s
          else if fundingTime - PRE_FUNDING_MS - now \<le> 0
            then openPosition (symbol ticker) fundingTime (unschedule (symbol ticker) s)
          else (let s1 = unschedule (symbol ticker) s in
                s1\<lparr> timers := timers s1 @ [(nextId s1,
                       \<lparr> pt_due = fundingTime - PRE_FUNDING_MS,
                         pt_callback = OpenTimer (symbol ticker) fundingTime \<rparr>)],
                    nextId := Suc (nextId s1),
                    schedules := AList.update (symbol ticker)
                       \<lparr> st_fundingTime = fundingTime, st_openTimer = nextId s1 \<rparr> (schedules s1) \<rparr>))"
  by (auto simp: scheduleTrade_def qualifies_def armedFor_def unschedule_def Let_def setTimeout_def
      split: option.splits)

lemma advances_refl [simp]: "advances s s"
  by (simp add: advances_def)

lemma advances_trans: "advances s s1 \<Longrightarrow> advances s1 s2 \<Longrightarrow> advances s s2"
  unfolding advances_def
proof (intro conjI)
  assume a: "nextId s \<le> nextId s1 \<and> fst ` set (timers s1) \<subseteq> fst ` set (timers s) \<union> {nextId s..<nextId s1}"
    and b: "nextId s1 \<le> nextId s2 \<and> fst ` set (timers s2) \<subseteq> fst ` set (timers s1) \<union> {nextId s1..<nextId s2}"
  show "nextId s \<le> nextId s2" using a b by simp
  have "{nextId s..<nextId s1} \<union> {nextId s1..<nextId s2} = {nextId s..<nextId s2}"
    using a b by auto
  then show "fst ` set (timers s2) \<subseteq> fst ` set (timers s) \<union> {nextId s..<nextId s2}"
    using a b by blast
qed

lemma fresh_ids_iff: "fresh_ids s \<longleftrightarrow> (\<forall>t \<in> fst ` set (timers s). t < nextId s)"
  by (auto simp: fresh_ids_def list_all_iff)

lemma advances_fresh: "advances s s' \<Longrightarrow> fresh_ids s \<Longrightarrow> fresh_ids s'"
  unfolding fresh_ids_iff advances_def
proof (intro ballI)
  fix t
  assume a: "nextId s \<le> nextId s' \<and> fst ` set (timers s') \<subseteq> fst ` set (timers s) \<union> {nextId s..<nextId s'}"
    and f: "\<forall>t\<in>fst ` set (timers s). t < nextId s" and t: "t \<in> fst ` set (timers s')"
  from a t have "t \<in> fst ` set (timers s) \<or> t \<in> {nextId s..<nextId s'}" by blast
  then show "t < nextId s'" using f a by auto
qed

lemma advances_same: "timers s' = timers s \<Longrightarrow> nextId s \<le> nextId s' \<Longrightarrow> advances s s'"
  by (simp add: advances_def)

lemma advances_clearTimeout [simp]: "advances s (clearTimeout t s)"
  by (auto simp: advances_def clearTimeout_def AList.delete_eq)

lemma advances_setTimeout [simp]: "advances s (snd (setTimeout cb delay now s))"
  by (auto simp: advances_def setTimeout_def)

lemma advances_clearSchedule [simp]: "advances s (clearSchedule sy s)"
proof (cases "map_of (schedules s) sy")
  case None
  then show ?thesis by (simp add: clearSchedule_def advances_def)
next
  case (Some entry)
  have a: "advances (clearTimeout t s) ((clearTimeout t s)\<lparr> schedules := x \<rparr>)" for t x
    by (simp add: advances_def)
  have "advances s ((clearTimeout t s)\<lparr> schedules := x \<rparr>)" for t x
    using advances_trans [OF advances_clearTimeout a] .
  then show ?thesis using Some by (simp add: clearSchedule_def Let_def)
qed

lemma advances_clearActivePosition [simp]: "advances s (clearActivePosition sy s)"
proof -
  have a: "advances s' (s'\<lparr> activePositions := x \<rparr>)" for s' x by (simp add: advances_def)
  have b: "advances s ((clearTimeout t s)\<lparr> activePositions := x \<rparr>)" for t x
    using advances_trans [OF advances_clearTimeout a] .
  show ?thesis
    by (simp add: clearActivePosition_def Let_def a b split: option.splits)
qed

lemma advances_spawn [simp]: "advances s (spawn st s)"
  by (auto simp: advances_def spawn_def)

lemma advances_openPosition_finally [simp]: "advances s (openPosition_finally sy s)"
  by (simp add: advances_def openPosition_finally_def)

lemma advances_openPosition [simp]: "advances s (openPosition sy ft s)"
proof -
  have "advances s (s\<lparr> openingSymbols := x \<rparr>)" for x by (simp add: advances_def)
  from advances_trans [OF this advances_spawn] show ?thesis by (simp add: openPosition_def)
qed

lemma advances_unschedule [simp]: "advances s (unschedule sy s)"
  by (simp add: unschedule_def)


lemma advances_update:
  "advances s s1 \<Longrightarrow> timers s2 = timers s1 \<Longrightarrow> nextId s1 \<le> nextId s2 \<Longrightarrow> advances s s2"
proof -
  assume a: "advances s s1" and t: "timers s2 = timers s1" and n: "nextId s1 \<le> nextId s2"
  have "advances s1 s2" using t n by (rule advances_same)
  with a show ?thesis by (rule advances_trans)
qed

lemma advances_armed:
  "advances s (s\<lparr> timers := timers s @ [(nextId s, x)], nextId := Suc (nextId s), schedules := y \<rparr>)"
  by (auto simp: advances_def)

lemma advances_scheduleTrade [simp]: "advances s (scheduleTrade rt ticker now s)"
proof -
  let ?u = "unschedule (symbol ticker) s"
  have a: "advances s ?u" by simp
  have b: "advances s (openPosition (symbol ticker) ft ?u)" for ft
    using advances_trans [OF a advances_openPosition] .
  have c: "advances s (?u\<lparr> timers := timers ?u @ [(nextId ?u, x)], nextId := Suc (nextId ?u),
                             schedules := y \<rparr>)" for x y
    using advances_trans [OF a advances_armed] .
  show ?thesis
    by (simp add: scheduleTrade_cases Let_def a b c split: option.splits)
qed

lemma advances_foldl:
  assumes "\<And>s x. advances s (f s x)"
  shows "advances s (foldl f s xs)"
proof (induction xs arbitrary: s)
  case Nil
  then show ?case by simp
next
  case (Cons x xs)
  from advances_trans [OF assms Cons] show ?case by simp
qed

lemma advances_pollTickers_fetched [simp]: "advances s (pollTickers_fetched rt now resp s)"
proof (cases "parseTickerResponse resp")
  case (Inl e)
  then show ?thesis by (simp add: pollTickers_fetched_def)
next
  case (Inr raw)
  let ?tickers = "fetchTopFundingTickers rt 50 raw"
  let ?s1 = "foldl (\<lambda>s ticker. s\<lparr> latestTickers :=
               AList.update (symbol ticker) ticker (latestTickers s) \<rparr>) s ?tickers"
  let ?s2 = "foldl (\<lambda>s ticker. scheduleTrade rt ticker now s) ?s1 (selectTop rt ?tickers)"
  have a: "advances s ?s1" by (rule advances_foldl) (simp add: advances_def)
  have b: "advances ?s1 ?s2" by (rule advances_foldl) simp
  have c: "advances ?s2 (foldl (\<lambda>s sy. if sy \<notin> A then clearSchedule sy s else s) ?s2 ks)" for A ks
    by (rule advances_foldl) simp
  show ?thesis
    using advances_trans [OF advances_trans [OF a b] c] Inr
    by (simp add: pollTickers_fetched_def Let_def)
qed

lemma advances_openPosition_refreshed [simp]:
  "advances s (fst (openPosition_refreshed rt resp sy ft ticker0 s))"
proof -
  have a: "advances s (openPosition_finally sy (s\<lparr> latestTickers := x \<rparr>))" for x
    by (simp add: advances_def openPosition_finally_def)
  have b: "advances s (s\<lparr> latestTickers := x \<rparr>)" for x by (simp add: advances_def)
  show ?thesis
    by (auto simp: openPosition_refreshed_def Let_def a b split: sum.splits option.splits)
qed

lemma advances_openPosition_ordered [simp]:
  "advances s (fst (openPosition_ordered rt now env sy ft input s))"
  by (auto simp: openPosition_ordered_def Let_def advances_def setTimeout_def
      openPosition_finally_def split: prod.splits sum.splits)

lemma advances_finalizePosition [simp]: "advances s (fst (finalizePosition cid sy s))"
  by (simp add: finalizePosition_def split: option.splits)

lemma advances_closePosition_loop [simp]:
  "advances s (fst (closePosition_loop cid sy ref side attempt s))"
  by (simp add: closePosition_loop_def)

lemma advances_closePosition [simp]: "advances s (fst (closePosition sy s))"
proof -
  have "advances s (s\<lparr> nextId := Suc (nextId s) \<rparr>)" by (auto simp: advances_def)
  from advances_trans [OF this advances_closePosition_loop] show ?thesis
    by (simp add: closePosition_def Let_def split: option.splits)
qed

lemma advances_closePosition_sized [simp]:
  "advances s (fst (closePosition_sized rt resp cid sy ref side attempt s))"
  by (simp add: closePosition_sized_def Let_def split: sum.splits)

lemma advances_closePosition_ordered [simp]:
  "advances s (fst (closePosition_ordered rt env cid sy ref side attempt input s))"
  by (auto simp: closePosition_ordered_def Let_def advances_def split: prod.splits sum.splits)

lemma advances_shutdown_loop [simp]: "advances s (fst (shutdown_loop keys s))"
proof (induction keys arbitrary: s)
  case Nil
  then show ?case by simp
next
  case (Cons sy keys)
  obtain s1 fs where c: "closePosition sy s = (s1, fs)" by (cases "closePosition sy s")
  have "advances s (fst (closePosition sy s))" by simp
  then have a: "advances s s1" using c by simp
  show ?case using c a advances_trans [OF a Cons [of s1]] by simp
qed

lemma advances_shutdown [simp]: "advances s (fst (shutdown who s))"
proof -
  let ?s1 = "s\<lparr> trace := trace s @ [ShutdownCalled who], pollHandle := False, monitorHandle := False \<rparr>"
  have a: "advances s ?s1" by (simp add: advances_def)
  have b: "advances ?s1 (foldl (\<lambda>s sy. clearSchedule sy s) ?s1 ks)" for ks
    by (rule advances_foldl) simp
  show ?thesis
    using advances_trans [OF advances_trans [OF a b] advances_shutdown_loop]
    by (simp add: shutdown_def Let_def)
qed

lemma advances_finalizePosition_balance [simp]:
  "advances s (fst (finalizePosition_balance rt resp cid sy gross fees funding s))"
proof -
  let ?l = "s\<lparr> trace := trace s @ closed_log rt resp sy gross fees funding s \<rparr>"
  let ?s0 = "?l\<lparr> tradingEnabled := False \<rparr>"
  obtain s1 fs where sh: "shutdown ByBreach ?s0 = (s1, fs)" by (cases "shutdown ByBreach ?s0")
  have l: "advances s ?l" by (simp add: advances_def)
  have s0: "advances s ?s0" by (simp add: advances_def)
  have "advances ?s0 (fst (shutdown ByBreach ?s0))" by simp
  then have "advances ?s0 s1" using sh by simp
  with s0 have a: "advances s s1" by (rule advances_trans)
  have b: "advances s (clearActivePosition sy s1)"
    using advances_trans [OF a advances_clearActivePosition] .
  have c: "advances s (clearActivePosition sy ?l)"
    using advances_trans [OF l advances_clearActivePosition] .
  show ?thesis by (simp add: finalizePosition_balance_cases Let_def sh a b c)
qed

lemma advances_main_balance [simp]: "advances s (fst (main_balance rt resp s))"
  by (simp add: main_balance_def Let_def advances_def split: sum.splits)

lemma advances_advance [simp]: "advances s (fst (advance rt now resp f s))"
  by (cases f; cases resp)
     (simp_all add: advance_def finalizePosition_entry_def finalizePosition_close_def
        finalizePosition_funding_def finalizePosition_caught_def Let_def)

lemma advances_continue_ret [simp]: "advances s (fst (continue_ret s stack))"
proof (induction s stack rule: continue_ret.induct)
  case (2 s rest)
  obtain s1 fs where c: "shutdown_loop (map fst (activePositions s)) s = (s1, fs)"
    by (cases "shutdown_loop (map fst (activePositions s)) s")
  have "advances s (fst (shutdown_loop (map fst (activePositions s)) s))" by simp
  then have a: "advances s s1" using c by simp
  show ?case
  proof (cases "fs = []")
    case True
    have "advances s1 (fst (continue_ret s1 rest))" using 2 [OF c [symmetric] True] .
    with a have "advances s (fst (continue_ret s1 rest))" by (rule advances_trans)
    then show ?thesis using c True by simp
  next
    case False
    then show ?thesis using c a by simp
  qed
next
  case (3 s cid sy rest)
  from advances_trans [OF advances_clearActivePosition 3] show ?case by simp
next
  case (5 s rest)
  then show ?case by (simp add: advances_def)
qed simp_all

lemma advances_set_task [simp]: "advances s (set_task tid stack s)"
  by (simp add: advances_def set_task_def)

lemma advances_step [simp]: "advances s (step rt s e)"
proof (cases e)
  case (Respond tid now resp)
  show ?thesis
  proof (cases "exited s \<or> map_of (tasks s) tid = None \<or> map_of (tasks s) tid = Some []")
    case True
    then show ?thesis using Respond by auto
  next
    case False
    then obtain f rest where st: "map_of (tasks s) tid = Some (f # rest)"
      by (cases "map_of (tasks s) tid") (auto simp: neq_Nil_conv)
    obtain s1 fs where a: "advance rt now resp f s = (s1, fs)" by (cases "advance rt now resp f s")
    obtain s2 stack where c: "(if fs = [] then continue_ret s1 rest else (s1, fs @ rest)) = (s2, stack)"
      by (cases "(if fs = [] then continue_ret s1 rest else (s1, fs @ rest))")
    have "advances s (fst (advance rt now resp f s))" by simp
    then have a1: "advances s s1" using a by simp
    have "advances s1 s2"
    proof (cases "fs = []")
      case True
      then have "s2 = fst (continue_ret s1 rest)" using c by simp
      then show ?thesis by simp
    next
      case False
      then show ?thesis using c by simp
    qed
    with a1 have "advances s s2" by (rule advances_trans)
    then have "advances s (set_task tid stack s2)"
      using advances_set_task by (rule advances_trans)
    moreover have "step rt s e = set_task tid stack s2" using Respond False st a c by simp
    ultimately show ?thesis by simp
  qed
next
  case (TimerFire t now)
  have o: "advances s (openPosition sy ft ((clearTimeout t s)\<lparr> schedules := x \<rparr>))" for sy ft x
  proof -
    have "advances (clearTimeout t s) ((clearTimeout t s)\<lparr> schedules := x \<rparr>)"
      by (simp add: advances_def)
    from advances_trans [OF advances_trans [OF advances_clearTimeout this] advances_openPosition]
    show ?thesis .
  qed
  have c: "advances s (spawn fs s1)" if "closePosition sy (clearTimeout t s) = (s1, fs)" for sy s1 fs
  proof -
    have "advances (clearTimeout t s) (fst (closePosition sy (clearTimeout t s)))" by simp
    then have "advances (clearTimeout t s) s1" using that by simp
    from advances_trans [OF advances_trans [OF advances_clearTimeout this] advances_spawn]
    show ?thesis .
  qed
  show ?thesis
  proof (cases "exited s \<or> map_of (timers s) t = None")
    case True
    then show ?thesis using TimerFire by auto
  next
    case False
    then obtain timer where tm: "map_of (timers s) t = Some timer" by auto
    show ?thesis
    proof (cases "now < pt_due timer")
      case True
      then show ?thesis using TimerFire False tm by simp
    next
      case due: False
      show ?thesis
      proof (cases "pt_callback timer")
        case (OpenTimer sy ft)
        then show ?thesis using TimerFire False tm due o by simp
      next
        case (CloseTimer sy)
        obtain s1 fs where cp: "closePosition sy (clearTimeout t s) = (s1, fs)"
          by (cases "closePosition sy (clearTimeout t s)")
        show ?thesis using TimerFire False tm due CloseTimer cp c [OF cp] by simp
      qed
    qed
  qed
next
  case PollTick
  then show ?thesis by simp
next
  case Signal
  obtain s1 fs where sh: "shutdown BySignal s = (s1, fs)" by (cases "shutdown BySignal s")
  have "advances s (fst (shutdown BySignal s))" by simp
  then have a: "advances s s1" using sh by simp
  have b: "advances s (s1\<lparr> exited := True \<rparr>)"
    using a by (rule advances_update) simp_all
  have c: "advances s (spawn (fs @ [SignalExit]) s1)"
    using advances_trans [OF a advances_spawn] .
  show ?thesis using Signal sh b c by simp
qed

lemma fresh_ids_run: "fresh_ids s \<Longrightarrow> fresh_ids (run rt s evs)"
proof (induction evs arbitrary: s)
  case Nil
  then show ?case by (simp add: run_def)
next
  case (Cons e evs)
  have "fresh_ids (step rt s e)" using advances_fresh [OF advances_step Cons.prems] .
  from Cons.IH [OF this] show ?case by (simp add: run_def)
qed

lemma fresh_ids_reachable: "reachable rt s \<Longrightarrow> fresh_ids s"
proof -
  assume "reachable rt s"
  then obtain evs where "s = run rt initial evs" by (auto simp: reachable_def)
  moreover have "fresh_ids initial" by (simp add: fresh_ids_def initial_def)
  ultimately show ?thesis using fresh_ids_run by simp
qed


lemma nextId_unschedule [simp]: "nextId (unschedule sy s) = nextId s"
  by (simp add: unschedule_def clearSchedule_def clearTimeout_def Let_def split: option.splits)

lemma exited_scheduleTrade [simp]: "exited (scheduleTrade rt ticker now s) = exited s"
proof -
  have a: "exited (unschedule sy s) = exited s" for sy
    by (simp add: unschedule_def clearSchedule_def clearTimeout_def Let_def split: option.splits)
  have b: "exited (openPosition sy ft s') = exited s'" for sy ft s'
    by (simp add: openPosition_def spawn_def)
  show ?thesis by (simp add: scheduleTrade_cases Let_def a b split: option.splits)
qed

lemma map_of_fresh:
  "\<forall>t \<in> fst ` set xs. t < k \<Longrightarrow> map_of (xs @ [(k, v)]) k = Some v" for k :: nat
  by (induction xs) auto

lemma armed_timer:
  assumes f: "fresh_ids s"
    and q: "qualifies rt ticker now fundingTime" "\<not> armedFor s (symbol ticker) fundingTime"
    and w: "0 < fundingTime - PRE_FUNDING_MS - now" "fundingTime - PRE_FUNDING_MS - now \<le> PRE_FUNDING_MS"
  shows "map_of (timers (scheduleTrade rt ticker now s)) (nextId s)
           = Some \<lparr> pt_due = fundingTime - PRE_FUNDING_MS,
                    pt_callback = OpenTimer (symbol ticker) fundingTime \<rparr>"
proof -
  let ?u = "unschedule (symbol ticker) s"
  have p: "parseFundingTimestamp rt (nextFundingTime ticker) = Some fundingTime"
    using q(1) by (simp add: qualifies_def)
  have t: "timers (scheduleTrade rt ticker now s)
      = timers ?u @ [(nextId s, \<lparr> pt_due = fundingTime - PRE_FUNDING_MS,
                                  pt_callback = OpenTimer (symbol ticker) fundingTime \<rparr>)]"
    using p q w by (simp add: scheduleTrade_cases Let_def)
  have "fresh_ids ?u" using advances_fresh [OF advances_unschedule f] .
  then have "\<forall>t \<in> fst ` set (timers ?u). t < nextId s" by (simp add: fresh_ids_iff)
  then show ?thesis unfolding t by (rule map_of_fresh)
qed

lemma timer_waits:
  "map_of (timers s) t = Some timer \<Longrightarrow> later < pt_due timer \<Longrightarrow> step rt s (TimerFire t later) = s"
  by simp

lemma open_timer_fires:
  "\<not> exited s \<Longrightarrow> map_of (timers s) t = Some timer \<Longrightarrow> pt_due timer \<le> later \<Longrightarrow>
     pt_callback timer = OpenTimer sy fundingTime \<Longrightarrow>
     step rt s (TimerFire t later)
       = openPosition sy fundingTime ((clearTimeout t s)\<lparr> schedules := AList.delete sy (schedules s) \<rparr>)"
  by simp


lemma armedState_eq:
  "armedState = initial\<lparr> timers := [(1, \<lparr> pt_due = 4000, pt_callback = OpenTimer ''BTCUSDT'' 9000 \<rparr>)],
       nextId := 2,
       schedules := [(''BTCUSDT'', \<lparr> st_fundingTime = 9000, st_openTimer = 1 \<rparr>)] \<rparr>"
  by (simp add: armedState_def scheduleTrade_def snapshot_def rt0_parse FUNDING_THRESHOLD_def
      PRE_FUNDING_MS_def initial_def setTimeout_def)

lemma qualifies_examples:
  "qualifies rt0 (snapshot ''BTCUSDT'' 0.01 (Some ''9000'')) 1000 9000"
  "qualifies rt0 (snapshot ''BTCUSDT'' 0.01 (Some ''9000'')) 4500 9000"
  "qualifies rt0 (snapshot ''BTCUSDT'' 0.01 (Some ''20000'')) 1000 20000"
  "\<not> qualifies rt0 (snapshot ''BTCUSDT'' 0.001 (Some ''9000'')) 1000 t"
  by (simp_all add: qualifies_def snapshot_def rt0_parse FUNDING_THRESHOLD_def)



section \<open>Properties of the risk latch\<close>

lemma count_entry_orders [simp]:
  "count_list (map (EntryOrderSent sy) l) (ShutdownCalled c) = 0"
  by (induction l) auto

lemma count_close_orders [simp]:
  "count_list (map (CloseOrderSent cid) l) (ShutdownCalled c) = 0"
  by (induction l) auto

lemma risk_clearTimeout [simp]: "risk (clearTimeout t s) = risk s"
  by (simp add: risk_def breaches_def clearTimeout_def)

lemma risk_clearSchedule [simp]: "risk (clearSchedule sy s) = risk s"
proof -
  have "risk (s'\<lparr> schedules := x \<rparr>) = risk s'" for s' x by (simp add: risk_def breaches_def)
  then show ?thesis by (simp add: clearSchedule_def Let_def split: option.splits)
qed

lemma risk_clearActivePosition [simp]: "risk (clearActivePosition sy s) = risk s"
proof -
  have "risk (s'\<lparr> activePositions := x \<rparr>) = risk s'" for s' x by (simp add: risk_def breaches_def)
  then show ?thesis by (simp add: clearActivePosition_def Let_def split: option.splits)
qed

lemma risk_spawn [simp]: "risk (spawn st s) = risk s"
  by (simp add: risk_def breaches_def spawn_def)

lemma risk_openPosition_finally [simp]: "risk (openPosition_finally sy s) = risk s"
  by (simp add: risk_def breaches_def openPosition_finally_def)

lemma risk_openPosition [simp]: "risk (openPosition sy ft s) = risk s"
proof -
  have "risk (s\<lparr> openingSymbols := x \<rparr>) = risk s" for x by (simp add: risk_def breaches_def)
  then show ?thesis by (simp add: openPosition_def)
qed

lemma risk_scheduleTrade [simp]: "risk (scheduleTrade rt ticker now s) = risk s"
proof -
  have a: "risk (s'\<lparr> timers := x, nextId := y, schedules := z \<rparr>) = risk s'" for s' x y z
    by (simp add: risk_def breaches_def)
  show ?thesis
    by (simp add: scheduleTrade_def Let_def setTimeout_def a split: option.splits)
qed

lemma risk_foldl:
  assumes "\<And>x s. risk (f s x) = risk s"
  shows "risk (foldl f s xs) = risk s"
  using assms by (induction xs arbitrary: s) auto

lemma risk_pollTickers_fetched [simp]: "risk (pollTickers_fetched rt now resp s) = risk s"
proof -
  have a: "risk (s'\<lparr> latestTickers := x \<rparr>) = risk s'" for s' x by (simp add: risk_def breaches_def)
  show ?thesis
    by (simp add: pollTickers_fetched_def Let_def risk_foldl a split: sum.splits)
qed

lemma risk_openPosition_refreshed [simp]:
  "risk (fst (openPosition_refreshed rt resp sy ft ticker s)) = risk s"
proof -
  have a: "risk (s'\<lparr> latestTickers := x \<rparr>) = risk s'" for s' x by (simp add: risk_def breaches_def)
  show ?thesis
    by (simp add: openPosition_refreshed_def Let_def a split: sum.splits option.splits prod.splits)
qed

lemma risk_openPosition_ordered [simp]:
  "risk (fst (openPosition_ordered rt now env sy ft input s)) = risk s"
proof -
  show ?thesis
    by (simp add: openPosition_ordered_def Let_def setTimeout_def risk_def breaches_def
        openPosition_finally_def split: sum.splits prod.splits)
qed

lemma risk_finalizePosition [simp]: "risk (fst (finalizePosition cid sy s)) = risk s"
  by (simp add: finalizePosition_def split: option.splits)

lemma risk_closePosition_loop [simp]:
  "risk (fst (closePosition_loop cid sy ref side attempt s)) = risk s"
  by (simp add: closePosition_loop_def)

lemma risk_closePosition [simp]: "risk (fst (closePosition sy s)) = risk s"
proof -
  have a: "risk (s\<lparr> nextId := x \<rparr>) = risk s" for x by (simp add: risk_def breaches_def)
  show ?thesis by (simp add: closePosition_def Let_def a split: option.splits)
qed

lemma risk_closePosition_sized [simp]:
  "risk (fst (closePosition_sized rt resp cid sy ref side attempt s)) = risk s"
  by (simp add: closePosition_sized_def Let_def split: sum.splits option.splits)

lemma risk_closePosition_ordered [simp]:
  "risk (fst (closePosition_ordered rt env cid sy ref side attempt input s)) = risk s"
proof -
  have a: "risk (s'\<lparr> trace := trace s' @ map (CloseOrderSent cid) l \<rparr>) = risk s'" for s' l
    by (simp add: risk_def breaches_def)
  have b: "risk (s'\<lparr> heap := h \<rparr>) = risk s'" for s' h by (simp add: risk_def breaches_def)
  show ?thesis
    by (simp add: closePosition_ordered_def Let_def a b split: sum.splits prod.splits)
qed

lemma risk_shutdown_loop [simp]: "risk (fst (shutdown_loop keys s)) = risk s"
proof (induction keys arbitrary: s)
  case Nil
  then show ?case by simp
next
  case (Cons sy keys)
  obtain s1 fs where c: "closePosition sy s = (s1, fs)" by (cases "closePosition sy s")
  have "risk (fst (closePosition sy s)) = risk s" by simp
  then have "risk s1 = risk s" using c by simp
  then show ?case using Cons c by simp
qed

lemma risk_shutdown:
  "risk (fst (shutdown who s))
     = (tradingEnabled s, breaches s + (if who = ByBreach then 1 else 0),
        startingEquity s, drawdownLimitUsd s)"
proof -
  let ?s1 = "s\<lparr> trace := trace s @ [ShutdownCalled who], pollHandle := False, monitorHandle := False \<rparr>"
  have a: "risk ?s1 = (tradingEnabled s, breaches s + (if who = ByBreach then 1 else 0),
        startingEquity s, drawdownLimitUsd s)"
    by (simp add: risk_def breaches_def)
  have "risk (foldl (\<lambda>s sy. clearSchedule sy s) ?s1 ks) = risk ?s1" for ks
    by (rule risk_foldl) simp
  then show ?thesis using a by (simp add: shutdown_def Let_def)
qed

lemma risk_finalizePosition_entry [simp]:
  "risk (fst (finalizePosition_entry rt venue cid sy ref ids s)) = risk s"
  by (simp add: finalizePosition_entry_def Let_def)

lemma risk_finalizePosition_close [simp]:
  "risk (fst (finalizePosition_close rt now venue cid sy ref es ids s)) = risk s"
  by (simp add: finalizePosition_close_def Let_def)

lemma risk_finalizePosition_funding [simp]:
  "risk (fst (finalizePosition_funding rt now resp cid sy gross fees st en s)) = risk s"
  by (simp add: finalizePosition_funding_def)

lemma risk_finalizePosition_caught [simp]:
  "risk (fst (finalizePosition_caught sy s)) = risk s"
  by (simp add: finalizePosition_caught_def)

lemma count_closed_log [simp]:
  "count_list (closed_log rt resp sy gross fees funding s) (ShutdownCalled c) = 0"
  by (simp add: closed_log_def split: sum.splits)

lemma risk_logged [simp]:
  "risk (s\<lparr> trace := trace s @ closed_log rt resp sy gross fees funding s \<rparr>) = risk s"
  by (simp add: risk_def breaches_def)

lemma risk_finalizePosition_balance:
  "risk (fst (finalizePosition_balance rt resp cid sy gross fees funding s))
     = (if breach rt resp s \<and> tradingEnabled s
        then (False, breaches s + 1, startingEquity s, drawdownLimitUsd s)
        else risk s)"
proof -
  let ?s0 = "s\<lparr> trace := trace s @ closed_log rt resp sy gross fees funding s \<rparr>"
  have a: "risk (fst (shutdown ByBreach (?s0\<lparr> tradingEnabled := False \<rparr>)))
             = (False, breaches s + 1, startingEquity s, drawdownLimitUsd s)"
    by (simp add: risk_shutdown breaches_def)
  obtain s1 fs where sh: "shutdown ByBreach (?s0\<lparr> tradingEnabled := False \<rparr>) = (s1, fs)"
    by (cases "shutdown ByBreach (?s0\<lparr> tradingEnabled := False \<rparr>)")
  have b: "risk s1 = (False, breaches s + 1, startingEquity s, drawdownLimitUsd s)"
    using a sh by simp
  show ?thesis
    by (simp add: finalizePosition_balance_cases Let_def sh b)
qed

lemma risk_main_balance:
  "tradingEnabled (fst (main_balance rt resp s)) = tradingEnabled s
   \<and> breaches (fst (main_balance rt resp s)) = breaches s"
  by (simp add: main_balance_def Let_def breaches_def split: sum.splits)

lemma risk_step_refl: "risk s' = risk s \<Longrightarrow> risk_step s s'"
  by (simp add: risk_step_def)

lemma risk_step_cong: "risk_step s s' \<Longrightarrow> risk s'' = risk s' \<Longrightarrow> risk_step s s''"
  by (auto simp: risk_step_def risk_def)

lemma risk_step_main_balance: "risk_step s (fst (main_balance rt resp s))"
  by (simp add: risk_step_def risk_def main_balance_def Let_def breaches_def split: sum.splits)

lemma risk_step_finalizePosition_balance:
  "risk_step s (fst (finalizePosition_balance rt resp cid sy gross fees funding s))"
  by (simp add: risk_step_def risk_finalizePosition_balance)

lemma risk_step_advance: "risk_step s (fst (advance rt now resp f s))"
  by (cases f; cases resp)
     (simp_all add: advance_def risk_step_main_balance risk_step_finalizePosition_balance
        risk_step_refl)

lemma risk_exited [simp]: "risk (s\<lparr> exited := x \<rparr>) = risk s"
  by (simp add: risk_def breaches_def)

lemma risk_continue_ret [simp]: "risk (fst (continue_ret s stack)) = risk s"
proof (induction s stack rule: continue_ret.induct)
  case (2 s rest)
  obtain s1 fs where c: "shutdown_loop (map fst (activePositions s)) s = (s1, fs)"
    by (cases "shutdown_loop (map fst (activePositions s)) s")
  have "risk (fst (shutdown_loop (map fst (activePositions s)) s)) = risk s" by simp
  then have r: "risk s1 = risk s" using c by simp
  show ?case using 2 c r by (cases "fs = []") simp_all
qed simp_all

lemma risk_set_task [simp]: "risk (set_task tid stack s) = risk s"
  by (simp add: set_task_def risk_def breaches_def)

lemma risk_step_step: "risk_step s (step rt s e)"
proof (cases e)
  case (Respond tid now resp)
  show ?thesis
  proof (cases "exited s \<or> map_of (tasks s) tid = None \<or> map_of (tasks s) tid = Some []")
    case True
    then show ?thesis using Respond by (auto simp: risk_step_refl)
  next
    case False
    then obtain f rest where t: "map_of (tasks s) tid = Some (f # rest)"
      by (cases "map_of (tasks s) tid"; cases "the (map_of (tasks s) tid)") auto
    obtain s1 fs where a: "advance rt now resp f s = (s1, fs)" by (cases "advance rt now resp f s")
    have r1: "risk_step s s1" using risk_step_advance [of s rt now resp f] a by simp
    obtain s2 stack where c: "(if fs = [] then continue_ret s1 rest else (s1, fs @ rest)) = (s2, stack)"
      by (cases "(if fs = [] then continue_ret s1 rest else (s1, fs @ rest))")
    have "risk s2 = risk s1"
    proof (cases "fs = []")
      case True
      then have "s2 = fst (continue_ret s1 rest)" using c by simp
      then show ?thesis by simp
    next
      case False
      then show ?thesis using c by simp
    qed
    then have "risk (set_task tid stack s2) = risk s1" by simp
    then have "risk_step s (set_task tid stack s2)" using r1 risk_step_cong by blast
    moreover have "step rt s e = set_task tid stack s2"
      using Respond False t a c by simp
    ultimately show ?thesis by simp
  qed
next
  case (TimerFire t now)
  have a: "risk (s'\<lparr> schedules := x \<rparr>) = risk s'" for s' x by (simp add: risk_def breaches_def)
  have b: "risk s1 = risk s" if "closePosition sy (clearTimeout t s) = (s1, fs)" for sy s1 fs
  proof -
    have "risk (fst (closePosition sy (clearTimeout t s))) = risk s" by simp
    then show ?thesis using that by simp
  qed
  show ?thesis using TimerFire
    by (auto simp: risk_step_refl a b split: option.splits timer_callback.splits prod.splits)
next
  case PollTick
  then show ?thesis by (simp add: risk_step_refl)
next
  case Signal
  obtain s1 fs where sh: "shutdown BySignal s = (s1, fs)" by (cases "shutdown BySignal s")
  have "risk (fst (shutdown BySignal s)) = risk s"
    using risk_shutdown [of BySignal s] by (simp add: risk_def)
  then have r: "risk s1 = risk s" using sh by simp
  have e: "risk (s1\<lparr> exited := True \<rparr>) = risk s1" by (simp add: risk_def breaches_def)
  show ?thesis using Signal sh r e by (simp add: risk_step_refl)
qed

lemma step_latch_ok: "latch_ok s \<Longrightarrow> limit_ok s \<Longrightarrow> latch_ok (step rt s e) \<and> limit_ok (step rt s e)"
  using risk_step_step [of s rt e]
  by (auto simp: risk_step_def risk_def latch_ok_def limit_ok_def split: if_splits option.splits)

lemma run_latch_ok: "latch_ok s \<Longrightarrow> limit_ok s \<Longrightarrow> latch_ok (run rt s evs) \<and> limit_ok (run rt s evs)"
  unfolding run_def
proof (induction evs arbitrary: s)
  case Nil
  then show ?case by simp
next
  case (Cons e evs)
  then show ?case using step_latch_ok [of s rt e] by simp
qed

lemma reachable_latch_ok: "reachable rt s \<Longrightarrow> latch_ok s \<and> limit_ok s"
proof -
  have "latch_ok initial" "limit_ok initial"
    by (simp_all add: latch_ok_def limit_ok_def initial_def breaches_def)
  then show "reachable rt s \<Longrightarrow> latch_ok s \<and> limit_ok s"
    using run_latch_ok by (auto simp: reachable_def)
qed

lemma step_monotone: "tradingEnabled (step rt s e) \<Longrightarrow> tradingEnabled s"
  using risk_step_step [of s rt e] by (auto simp: risk_step_def risk_def)

lemma flag_changes_le:
  "flag_changes rt s evs \<le> (if tradingEnabled s then 1 else 0)"
proof (induction evs arbitrary: s)
  case Nil
  then show ?case by simp
next
  case (Cons e evs)
  show ?case using Cons [of "step rt s e"] step_monotone [of rt s e] by (auto split: if_splits)
qed

lemma run_twoTrades: "run rt0 initial twoTrades = bothFinalizing"
  by (simp add: twoTrades_def initial_def bothFinalizing_def engine_defs insert_Diff_if)

lemma risk_step_respond:
  assumes "\<not> exited s" and "map_of (tasks s) tid = Some (f # rest)"
  shows "risk (step rt s (Respond tid now resp)) = risk (fst (advance rt now resp f s))"
proof -
  obtain s1 fs where a: "advance rt now resp f s = (s1, fs)" by (cases "advance rt now resp f s")
  obtain s2 stack where c: "(if fs = [] then continue_ret s1 rest else (s1, fs @ rest)) = (s2, stack)"
    by (cases "(if fs = [] then continue_ret s1 rest else (s1, fs @ rest))")
  have "risk s2 = risk s1"
  proof (cases "fs = []")
    case True
    then have "s2 = fst (continue_ret s1 rest)" using c by simp
    then show ?thesis by simp
  next
    case False
    then show ?thesis using c by simp
  qed
  then have "risk (set_task tid stack s2) = risk s1" by simp
  moreover have "step rt s (Respond tid now resp) = set_task tid stack s2"
    using assms a c by simp
  ultimately show ?thesis using a by simp
qed

text \<open>
  Claim C2.  The trading-enabled flag starts true; no step of the event loop sets it back
  to true; along any sequence of steps from any state it changes at most once.  In every
  reachable state the number of \<open>shutdown\<close> calls made for a drawdown breach is 0 while
  the flag is true and 1 once it is false, and the drawdown limit is 0.03 times the
  starting equity.  When \<open>finalizePosition\<close> reads a balance whose drawdown (starting
  equity minus current equity) reaches the limit, the flag is false afterwards, and
  \<open>shutdown\<close> is called in that step exactly when the flag was still true: a second
  finalize path that sees the breach calls nothing.
\<close>

theorem trading_latch:
  "tradingEnabled initial
   \<and> (tradingEnabled (step rt s e) \<longrightarrow> tradingEnabled s)
   \<and> flag_changes rt s evs \<le> 1
   \<and> (reachable rt s \<longrightarrow> breaches s = (if tradingEnabled s then 0 else 1) \<and> limit_ok s)
   \<and> (\<not> exited s \<and> map_of (tasks s) tid = Some (FinBalance cid sy gross fees funding # rest)
        \<and> breach rt resp s \<longrightarrow>
          \<not> tradingEnabled (step rt s (Respond tid now (R_wallet resp)))
          \<and> breaches (step rt s (Respond tid now (R_wallet resp)))
              = breaches s + (if tradingEnabled s then 1 else 0))"
proof -
  have a: "tradingEnabled initial" by (simp add: initial_def)
  have b: "tradingEnabled (step rt s e) \<longrightarrow> tradingEnabled s" using step_monotone by blast
  have c: "flag_changes rt s evs \<le> 1"
    using flag_changes_le [of rt s evs] by (simp split: if_splits)
  have d: "reachable rt s \<longrightarrow> breaches s = (if tradingEnabled s then 0 else 1) \<and> limit_ok s"
    using reachable_latch_ok [of rt s] by (simp add: latch_ok_def)
  have e: "\<not> tradingEnabled (step rt s (Respond tid now (R_wallet resp)))
          \<and> breaches (step rt s (Respond tid now (R_wallet resp)))
              = breaches s + (if tradingEnabled s then 1 else 0)"
    if h: "\<not> exited s" "map_of (tasks s) tid = Some (FinBalance cid sy gross fees funding # rest)"
      "breach rt resp s"
  proof -
    define s' where "s' = step rt s (Respond tid now (R_wallet resp))"
    have "risk s' = risk (fst (finalizePosition_balance rt resp cid sy gross fees funding s))"
      unfolding s'_def
      using risk_step_respond [OF h(1) h(2), of rt now "R_wallet resp"] by (simp add: advance_def)
    then have "risk s' = (if tradingEnabled s
                 then (False, breaches s + 1, startingEquity s, drawdownLimitUsd s) else risk s)"
      using h(3) by (simp add: risk_finalizePosition_balance)
    then have "\<not> tradingEnabled s' \<and> breaches s' = breaches s + (if tradingEnabled s then 1 else 0)"
      by (simp add: risk_def split: if_splits)
    then show ?thesis unfolding s'_def .
  qed
  show ?thesis using a b c d e by blast
qed

theorem trading_latch_witness:
  "reachable rt0 bothFinalizing
   \<and> breaches bothFinalizing = 0 \<and> tradingEnabled bothFinalizing \<and> limit_ok bothFinalizing
   \<and> \<not> exited bothFinalizing
   \<and> map_of (tasks bothFinalizing) 8 = Some [FinBalance 7 ''BTCUSDT'' 0 0 0]
   \<and> breach rt0 (walletResponse ''965'') bothFinalizing
   \<and> \<not> tradingEnabled (step rt0 bothFinalizing (Respond 8 9500 (R_wallet (walletResponse ''965''))))
   \<and> breaches (step rt0 bothFinalizing (Respond 8 9500 (R_wallet (walletResponse ''965'')))) = 1
   \<and> map_of (tasks (step rt0 bothFinalizing (Respond 8 9500 (R_wallet (walletResponse ''965''))))) 10
        = Some [FinBalance 9 ''ETHUSDT'' 0 0 0]
   \<and> breach rt0 (walletResponse ''965'')
        (step rt0 bothFinalizing (Respond 8 9500 (R_wallet (walletResponse ''965''))))
   \<and> breaches (step rt0 (step rt0 bothFinalizing (Respond 8 9500 (R_wallet (walletResponse ''965''))))
        (Respond 10 9600 (R_wallet (walletResponse ''965'')))) = 1"
proof -
  define s1 where "s1 = step rt0 bothFinalizing (Respond 8 9500 (R_wallet (walletResponse ''965'')))"
  define s2 where "s2 = step rt0 s1 (Respond 10 9600 (R_wallet (walletResponse ''965'')))"
  have r: "reachable rt0 bothFinalizing" unfolding reachable_def using run_twoTrades by metis
  have w: "getWalletBalance rt0 (ACCOUNT_COIN rt0) (walletResponse ''965'') = Inr 965"
    by (simp add: getWalletBalance_def ACCOUNT_COIN_def rt0_def walletResponse_def toNum_def
        decimal_val_def digit_val_def)
  have h1: "\<not> exited bothFinalizing" by (simp add: bothFinalizing_def)
  have h2: "map_of (tasks bothFinalizing) 8 = Some (FinBalance 7 ''BTCUSDT'' 0 0 0 # [])"
    by (simp add: bothFinalizing_def)
  have h3: "breach rt0 (walletResponse ''965'') bothFinalizing"
    by (simp add: breach_def w) (simp add: bothFinalizing_def)
  have t: "tradingEnabled bothFinalizing" by (simp add: bothFinalizing_def)
  have g1: "\<not> exited s1 \<and> map_of (tasks s1) 10 = Some (FinBalance 9 ''ETHUSDT'' 0 0 0 # [])
            \<and> startingEquity s1 = Some 1000 \<and> drawdownLimitUsd s1 = 30"
    unfolding s1_def by (simp add: bothFinalizing_def engine_defs)
  then have g3: "breach rt0 (walletResponse ''965'') s1" by (simp add: breach_def w)
  have L0: "breaches bothFinalizing = 0 \<and> limit_ok bothFinalizing"
    using trading_latch [of rt0 bothFinalizing PollTick "[]" 8 7 "''BTCUSDT''" 0 0 0 "[]"
        "walletResponse ''965''" 9500] r t by presburger
  have L1: "\<not> tradingEnabled s1 \<and> breaches s1 = 1"
    unfolding s1_def
    using trading_latch [of rt0 bothFinalizing PollTick "[]" 8 7 "''BTCUSDT''" 0 0 0 "[]"
        "walletResponse ''965''" 9500] h1 h2 h3 t L0 by presburger
  have L2: "breaches s2 = 1"
    unfolding s2_def
    using trading_latch [of rt0 s1 PollTick "[]" 10 9 "''ETHUSDT''" 0 0 0 "[]"
        "walletResponse ''965''" 9600] g1 g3 L1 by presburger
  show ?thesis
    using r L0 t h1 h2 h3 L1 g1 g3 L2 unfolding s1_def s2_def by blast
qed

section \<open>Properties of the close loop\<close>

lemma placeLimitOrder_sent: "length (snd (placeLimitOrder rt env input)) \<le> 1"
  by (simp add: placeLimitOrder_def Let_def split: sum.splits)

lemma step_single:
  assumes "\<not> exited s" and "map_of (tasks s) tid = Some [f]"
    and "advance rt now resp f s = (s1, fs)"
  shows "step rt s (Respond tid now resp) = set_task tid fs s1"
  using assms by simp

lemma tasks_set_task:
  "map_of (tasks (set_task tid stack s)) tid = (if stack = [] then None else Some stack)"
  by (simp add: set_task_def update_conv' delete_conv')

lemma close_orders_set_task [simp]: "close_orders cid (set_task tid stack s) = close_orders cid s"
  by (simp add: set_task_def close_orders_def)

lemma exited_set_task [simp]: "exited (set_task tid stack s) = exited s"
  by (simp add: set_task_def)

lemma finalizePosition_frames:
  "finalizePosition cid sy s = (s1, fs) \<Longrightarrow>
     s1 = s \<and> (fs = [] \<or> (\<exists>ref ids. fs = [FinEntry cid sy ref ids]))"
  by (auto simp: finalizePosition_def split: option.splits)

lemma closePosition_loop_frames:
  "closePosition_loop cid sy ref side attempt s = (s1, fs) \<Longrightarrow>
     s1 = s \<and> (if attempt \<le> 5 then fs = [CloseSize cid sy ref side attempt]
               else fs = [] \<or> (\<exists>ref' ids. fs = [FinEntry cid sy ref' ids]))"
  using finalizePosition_frames [of cid sy s s1 fs]
  by (auto simp: closePosition_loop_def MAX_CLOSE_ATTEMPTS_def)

lemma closePosition_sized_frames:
  "closePosition_sized rt resp cid sy ref side attempt s = (s1, fs) \<Longrightarrow>
     s1 = s \<and> (fs = [] \<or> (\<exists>ref' ids. fs = [FinEntry cid sy ref' ids])
               \<or> fs = [CloseSleep cid sy ref side attempt]
               \<or> (\<exists>input. fs = [CloseOrder cid sy ref side attempt input]))"
  using finalizePosition_frames [of cid sy s s1 fs]
  by (auto simp: closePosition_sized_def Let_def split: sum.splits if_splits)

lemma filter_close_orders [simp]:
  "length (filter (is_close_order cid) (map (CloseOrderSent cid) l)) = length l"
  by (induction l) auto

lemma closePosition_ordered_frames:
  "closePosition_ordered rt env cid sy ref side attempt input s = (s1, fs) \<Longrightarrow>
     fs = [CloseSleep cid sy ref side attempt]
     \<and> tasks s1 = tasks s \<and> exited s1 = exited s
     \<and> close_orders cid s1 = close_orders cid s + length (snd (placeLimitOrder rt env input))"
proof -
  assume a: "closePosition_ordered rt env cid sy ref side attempt input s = (s1, fs)"
  obtain outcome sent where p: "placeLimitOrder rt env input = (outcome, sent)"
    by (cases "placeLimitOrder rt env input")
  show ?thesis
  proof (cases outcome)
    case (Inl e)
    then show ?thesis using a p by (auto simp: closePosition_ordered_def close_orders_def)
  next
    case (Inr result)
    then show ?thesis using a p
      by (cases "or_orderLinkId result = []")
         (auto simp: closePosition_ordered_def close_orders_def)
  qed
qed

lemma advance_close:
  assumes f: "close_frame cid n f"
    and a: "advance rt now resp f s = (s1, fs)"
    and r: "resp = R_position pr \<or> resp = R_order env \<or> resp = R_sleep"
  shows "\<exists>k\<le>1. close_orders cid s1 = close_orders cid s + k
           \<and> (fs = [] \<and> n + k \<le> 5 \<or> (\<exists>g. fs = [g] \<and> close_frame cid (n + k) g))"
proof (cases f)
  case (CloseSize c sy ref side attempt)
  show ?thesis
  proof (cases "resp = R_position pr")
    case True
    then have "closePosition_sized rt pr c sy ref side attempt s = (s1, fs)"
      using a CloseSize by (simp add: advance_def)
    from closePosition_sized_frames [OF this] show ?thesis
      using f CloseSize by (auto simp: close_frame_def)
  next
    case False
    then have "s1 = s \<and> fs = [f]" using a r CloseSize by (auto simp: advance_def)
    then show ?thesis using f by auto
  qed
next
  case (CloseOrder c sy ref side attempt input)
  show ?thesis
  proof (cases "resp = R_order env")
    case True
    then have "closePosition_ordered rt env c sy ref side attempt input s = (s1, fs)"
      using a CloseOrder by (simp add: advance_def)
    from closePosition_ordered_frames [OF this] show ?thesis
      using f CloseOrder placeLimitOrder_sent [of rt env input]
      by (auto simp: close_frame_def)
  next
    case False
    then have "s1 = s \<and> fs = [f]" using a r CloseOrder by (auto simp: advance_def)
    then show ?thesis using f by auto
  qed
next
  case (CloseSleep c sy ref side attempt)
  show ?thesis
  proof (cases "resp = R_sleep")
    case True
    then have "closePosition_loop c sy ref side (Suc attempt) s = (s1, fs)"
      using a CloseSleep by (simp add: advance_def)
    from closePosition_loop_frames [OF this] show ?thesis
      using f CloseSleep by (auto simp: close_frame_def split: if_splits)
  next
    case False
    then have "s1 = s \<and> fs = [f]" using a r CloseSleep by (auto simp: advance_def)
    then show ?thesis using f by auto
  qed
next
  case (FinEntry c sy ref ids)
  then have "s1 = s \<and> fs = [f]" using a r by (auto simp: advance_def)
  then show ?thesis using f by auto
qed (use f in \<open>simp_all add: close_frame_def\<close>)

lemma close_inv_step:
  assumes inv: "close_inv tid cid base s"
    and r: "resp = R_position pr \<or> resp = R_order env \<or> resp = R_sleep"
  shows "close_inv tid cid base (step rt s (Respond tid now resp))"
proof (cases "exited s \<or> map_of (tasks s) tid = None")
  case True
  then show ?thesis using inv by auto
next
  case False
  then obtain stack where st: "map_of (tasks s) tid = Some stack" by auto
  then have l: "length stack = 1" and cf: "close_frame cid (close_orders cid s - base) (hd stack)"
    and b: "base \<le> close_orders cid s"
    using inv by (simp_all add: close_inv_def)
  then obtain f where sf: "stack = [f]" by (cases stack) auto
  obtain s1 fs where a: "advance rt now resp f s = (s1, fs)" by (cases "advance rt now resp f s")
  have e: "step rt s (Respond tid now resp) = set_task tid fs s1"
    using step_single [of s tid f rt now resp s1 fs] False st sf a by simp
  from advance_close [OF _ a r, of cid "close_orders cid s - base"] cf sf
  obtain k where k: "k \<le> 1" "close_orders cid s1 = close_orders cid s + k"
    "fs = [] \<and> close_orders cid s - base + k \<le> 5
       \<or> (\<exists>g. fs = [g] \<and> close_frame cid (close_orders cid s - base + k) g)"
    by auto
  have d: "close_orders cid s1 - base = close_orders cid s - base + k" using k(2) b by simp
  show ?thesis unfolding e close_inv_def
    using k b d by (auto simp: tasks_set_task)
qed

lemma close_inv_attempt:
  "close_inv tid cid base s \<Longrightarrow> close_inv tid cid base (run rt s (attempt_events tid now a))"
  by (simp add: run_def attempt_events_def close_inv_step del: step.simps)

lemma run_append: "run rt s (xs @ ys) = run rt (run rt s xs) ys"
  by (simp add: run_def)

lemma close_inv_script:
  "close_inv tid cid base s \<Longrightarrow> close_inv tid cid base (run rt s (close_script tid now attempts))"
proof (induction attempts arbitrary: s)
  case Nil
  then show ?case by (simp add: close_script_def run_def)
next
  case (Cons a attempts)
  have "close_script tid now (a # attempts) = attempt_events tid now a @ close_script tid now attempts"
    by (simp add: close_script_def)
  then show ?case using Cons close_inv_attempt [of tid cid base s rt now a] by (simp add: run_append)
qed

lemma close_inv_bound: "close_inv tid cid base s \<Longrightarrow> close_orders cid s \<le> base + 5"
  by (auto simp: close_inv_def close_frame_def split: option.splits frame.splits)

lemma set_task_same: "map_of (tasks s) tid = Some stack \<Longrightarrow> stack \<noteq> [] \<Longrightarrow> set_task tid stack s = s"
  by (simp add: set_task_def update_triv)

lemma finalizing_step:
  assumes fin: "finalizing tid cid s"
    and r: "resp = R_position pr \<or> resp = R_order env \<or> resp = R_sleep"
  shows "step rt s (Respond tid now resp) = s"
proof (cases "exited s \<or> map_of (tasks s) tid = None")
  case True
  then show ?thesis by auto
next
  case False
  then obtain c sy ref ids where st: "map_of (tasks s) tid = Some [FinEntry c sy ref ids]"
    using fin by (auto simp: finalizing_def split: option.splits list.splits frame.splits)
  have a: "advance rt now resp (FinEntry c sy ref ids) s = (s, [FinEntry c sy ref ids])"
    using r by (auto simp: advance_def)
  show ?thesis
    using step_single [OF _ st a] False set_task_same [OF st] by simp
qed

lemma finalizing_attempt: "finalizing tid cid s \<Longrightarrow> run rt s (attempt_events tid now a) = s"
  by (simp add: run_def attempt_events_def finalizing_step del: step.simps)

lemma finalizing_script: "finalizing tid cid s \<Longrightarrow> run rt s (close_script tid now attempts) = s"
proof (induction attempts)
  case Nil
  then show ?case by (simp add: close_script_def run_def)
next
  case (Cons a attempts)
  have "close_script tid now (a # attempts) = attempt_events tid now a @ close_script tid now attempts"
    by (simp add: close_script_def)
  then show ?case using Cons by (simp add: run_append finalizing_attempt)
qed

lemma finalizing_frames:
  "fs = [] \<or> (\<exists>ref ids. fs = [FinEntry cid sy ref ids]) \<Longrightarrow> finalizing tid cid (set_task tid fs s)"
  by (auto simp: finalizing_def tasks_set_task)

text \<open>One attempt from the head of the loop.\<close>

lemma attempt_progress:
  assumes ne: "\<not> exited s"
    and st: "map_of (tasks s) tid = Some [CloseSize cid sy ref side attempt]"
  shows "let s' = run rt s (attempt_events tid now a) in
           close_orders cid s' \<le> close_orders cid s + 1
           \<and> (finalizing tid cid s'
               \<or> (Suc attempt \<le> 5 \<and> \<not> exited s'
                   \<and> map_of (tasks s') tid = Some [CloseSize cid sy ref side (Suc attempt)]))
           \<and> (getPositionSize rt (fst a) = Inr 0 \<longrightarrow>
                 finalizing tid cid s' \<and> close_orders cid s' = close_orders cid s)"
proof -
  obtain s1 fs where a1: "closePosition_sized rt (fst a) cid sy ref side attempt s = (s1, fs)"
    by (cases "closePosition_sized rt (fst a) cid sy ref side attempt s")
  have adv1: "advance rt now (R_position (fst a)) (CloseSize cid sy ref side attempt) s = (s1, fs)"
    using a1 by (simp add: advance_def)
  define t1 where "t1 = step rt s (Respond tid now (R_position (fst a)))"
  have e1: "t1 = set_task tid fs s1" unfolding t1_def using step_single [OF ne st adv1] .
  from closePosition_sized_frames [OF a1]
  have s1: "s1 = s" and shape: "fs = [] \<or> (\<exists>ref' ids. fs = [FinEntry cid sy ref' ids])
               \<or> fs = [CloseSleep cid sy ref side attempt]
               \<or> (\<exists>input. fs = [CloseOrder cid sy ref side attempt input])" by auto
  have zero: "getPositionSize rt (fst a) = Inr 0 \<Longrightarrow> fs = [] \<or> (\<exists>ref' ids. fs = [FinEntry cid sy ref' ids])"
    using a1 finalizePosition_frames [of cid sy s s1 fs] by (simp add: closePosition_sized_def)
  have run3: "run rt s (attempt_events tid now a)
        = step rt (step rt t1 (Respond tid now (R_order (snd a)))) (Respond tid now R_sleep)"
    by (simp add: run_def attempt_events_def t1_def del: step.simps)
  consider (fin) "fs = [] \<or> (\<exists>ref' ids. fs = [FinEntry cid sy ref' ids])"
    | (sleep) "fs = [CloseSleep cid sy ref side attempt]"
    | (order) input where "fs = [CloseOrder cid sy ref side attempt input]"
    using shape by blast
  then show ?thesis
  proof cases
    case fin
    then have f: "finalizing tid cid t1" unfolding e1 by (rule finalizing_frames)
    have "run rt s (attempt_events tid now a) = t1"
      unfolding run3 using f by (simp add: finalizing_step del: step.simps)
    then show ?thesis using f e1 s1 by (simp add: Let_def)
  next
    case sleep
    have t1s: "map_of (tasks t1) tid = Some [CloseSleep cid sy ref side attempt]" "\<not> exited t1"
      "close_orders cid t1 = close_orders cid s"
      using e1 s1 sleep ne by (simp_all add: tasks_set_task)
    have a2: "advance rt now (R_order (snd a)) (CloseSleep cid sy ref side attempt) t1
                = (t1, [CloseSleep cid sy ref side attempt])"
      by (simp add: advance_def)
    have e2: "step rt t1 (Respond tid now (R_order (snd a))) = t1"
      using step_single [OF t1s(2) t1s(1) a2] set_task_same [OF t1s(1)] by simp
    obtain s3 fs3 where a3: "closePosition_loop cid sy ref side (Suc attempt) t1 = (s3, fs3)"
      by (cases "closePosition_loop cid sy ref side (Suc attempt) t1")
    have adv3: "advance rt now R_sleep (CloseSleep cid sy ref side attempt) t1 = (s3, fs3)"
      using a3 by (simp add: advance_def)
    have e3: "run rt s (attempt_events tid now a) = set_task tid fs3 t1"
      unfolding run3 e2 using step_single [OF t1s(2) t1s(1) adv3] closePosition_loop_frames [OF a3]
      by simp
    have z: "getPositionSize rt (fst a) \<noteq> Inr 0" using zero sleep by auto
    show ?thesis
    proof (cases "Suc attempt \<le> 5")
      case True
      then have "fs3 = [CloseSize cid sy ref side (Suc attempt)]"
        using closePosition_loop_frames [OF a3] by simp
      then show ?thesis using e3 t1s True z by (simp add: Let_def tasks_set_task)
    next
      case False
      then have "fs3 = [] \<or> (\<exists>ref' ids. fs3 = [FinEntry cid sy ref' ids])"
        using closePosition_loop_frames [OF a3] by simp
      then have "finalizing tid cid (set_task tid fs3 t1)" by (rule finalizing_frames)
      then show ?thesis using e3 t1s z by (simp add: Let_def)
    qed
  next
    case order
    have t1s: "map_of (tasks t1) tid = Some [CloseOrder cid sy ref side attempt input]" "\<not> exited t1"
      "close_orders cid t1 = close_orders cid s"
      using e1 s1 order ne by (simp_all add: tasks_set_task)
    obtain s2 fs2 where a2: "closePosition_ordered rt (snd a) cid sy ref side attempt input t1 = (s2, fs2)"
      by (cases "closePosition_ordered rt (snd a) cid sy ref side attempt input t1")
    have adv2: "advance rt now (R_order (snd a)) (CloseOrder cid sy ref side attempt input) t1 = (s2, fs2)"
      using a2 by (simp add: advance_def)
    define t2 where "t2 = step rt t1 (Respond tid now (R_order (snd a)))"
    have e2: "t2 = set_task tid fs2 s2" unfolding t2_def using step_single [OF t1s(2) t1s(1) adv2] .
    from closePosition_ordered_frames [OF a2]
    have f2: "fs2 = [CloseSleep cid sy ref side attempt]" and x2: "exited s2 = exited t1"
      and c2: "close_orders cid s2 = close_orders cid t1 + length (snd (placeLimitOrder rt (snd a) input))"
      by auto
    have t2s: "map_of (tasks t2) tid = Some [CloseSleep cid sy ref side attempt]" "\<not> exited t2"
      "close_orders cid t2 \<le> close_orders cid s + 1"
      using e2 f2 x2 c2 t1s placeLimitOrder_sent [of rt "snd a" input]
      by (simp_all add: tasks_set_task)
    obtain s3 fs3 where a3: "closePosition_loop cid sy ref side (Suc attempt) t2 = (s3, fs3)"
      by (cases "closePosition_loop cid sy ref side (Suc attempt) t2")
    have adv3: "advance rt now R_sleep (CloseSleep cid sy ref side attempt) t2 = (s3, fs3)"
      using a3 by (simp add: advance_def)
    have e3: "run rt s (attempt_events tid now a) = set_task tid fs3 t2"
      unfolding run3 using step_single [OF t2s(2) t2s(1) adv3] closePosition_loop_frames [OF a3]
      by (simp add: t2_def)
    have z: "getPositionSize rt (fst a) \<noteq> Inr 0" using zero order by auto
    show ?thesis
    proof (cases "Suc attempt \<le> 5")
      case True
      then have "fs3 = [CloseSize cid sy ref side (Suc attempt)]"
        using closePosition_loop_frames [OF a3] by simp
      then show ?thesis using e3 t2s True z by (simp add: Let_def tasks_set_task)
    next
      case False
      then have "fs3 = [] \<or> (\<exists>ref' ids. fs3 = [FinEntry cid sy ref' ids])"
        using closePosition_loop_frames [OF a3] by simp
      then have "finalizing tid cid (set_task tid fs3 t2)" by (rule finalizing_frames)
      then show ?thesis using e3 t2s z by (simp add: Let_def)
    qed
  qed
qed

lemma script_progress:
  assumes "\<not> exited s" and "map_of (tasks s) tid = Some [CloseSize cid sy ref side attempt]"
    and "attempt \<le> 5"
  shows "finalizing tid cid (run rt s (close_script tid now attempts))
         \<or> (attempt + length attempts \<le> 5 \<and> \<not> exited (run rt s (close_script tid now attempts))
             \<and> map_of (tasks (run rt s (close_script tid now attempts))) tid
                 = Some [CloseSize cid sy ref side (attempt + length attempts)])"
  using assms
proof (induction attempts arbitrary: s attempt)
  case Nil
  then show ?case by (simp add: close_script_def run_def)
next
  case (Cons a attempts)
  define s' where "s' = run rt s (attempt_events tid now a)"
  have sc: "run rt s (close_script tid now (a # attempts)) = run rt s' (close_script tid now attempts)"
    by (simp add: close_script_def run_append s'_def)
  from attempt_progress [OF Cons.prems(1,2), of rt now a]
  have p: "finalizing tid cid s'
           \<or> (Suc attempt \<le> 5 \<and> \<not> exited s'
               \<and> map_of (tasks s') tid = Some [CloseSize cid sy ref side (Suc attempt)])"
    by (simp add: Let_def s'_def)
  show ?case
  proof (cases "finalizing tid cid s'")
    case True
    then show ?thesis unfolding sc by (simp add: finalizing_script [of tid cid])
  next
    case False
    then have q: "\<not> exited s'" "map_of (tasks s') tid = Some [CloseSize cid sy ref side (Suc attempt)]"
      "Suc attempt \<le> 5"
      using p by auto
    from Cons.IH [OF q] show ?thesis unfolding sc by simp
  qed
qed

lemma zero_reading_stops:
  assumes ne: "\<not> exited s" and st: "map_of (tasks s) tid = Some [CloseSize cid sy ref side 1]"
    and z: "getPositionSize rt (fst a) = Inr 0"
  shows "finalizing tid cid (run rt s (close_script tid now (before @ [a])))
       \<and> close_orders cid (run rt s (close_script tid now (before @ [a])))
           = close_orders cid (run rt s (close_script tid now before))
       \<and> run rt s (close_script tid now (before @ a # after))
           = run rt s (close_script tid now (before @ [a]))"
proof -
  define s' where "s' = run rt s (close_script tid now before)"
  have r1: "run rt s (close_script tid now (before @ [a])) = run rt s' (attempt_events tid now a)"
    by (simp add: close_script_def run_append s'_def)
  have r2: "run rt s (close_script tid now (before @ a # after))
          = run rt (run rt s' (attempt_events tid now a)) (close_script tid now after)"
    by (simp add: close_script_def run_append s'_def)
  have f: "finalizing tid cid (run rt s' (attempt_events tid now a))
         \<and> close_orders cid (run rt s' (attempt_events tid now a)) = close_orders cid s'"
  proof (cases "finalizing tid cid s'")
    case True
    then show ?thesis by (simp add: finalizing_attempt [of tid cid])
  next
    case False
    then have q: "\<not> exited s'" "map_of (tasks s') tid = Some [CloseSize cid sy ref side (1 + length before)]"
      using script_progress [OF ne st, of rt now before] by (auto simp: s'_def)
    from attempt_progress [OF q, of rt now a] z show ?thesis by (simp add: Let_def)
  qed
  then have "run rt (run rt s' (attempt_events tid now a)) (close_script tid now after)
               = run rt s' (attempt_events tid now a)"
    using finalizing_script [of tid cid] by blast
  then show ?thesis unfolding r1 r2 using f by (simp add: s'_def)
qed

lemma run_oneTrade: "run rt0 initial oneTrade = closingState"
  by (simp add: oneTrade_def initial_def closingState_def engine_defs insert_Diff_if)

lemmas script_defs = close_script_def attempt_events_def reading_def close_orders_def

lemma closing_310:
  "close_orders 4 (run rt0 closingState (close_script 5 9100
       [reading ''3'' ''c1'', reading ''1'' ''c2'', reading ''0'' ''c3''])) = 2
   \<and> map_of (tasks (run rt0 closingState (close_script 5 9100
       [reading ''3'' ''c1'', reading ''1'' ''c2'', reading ''0'' ''c3'']))) 5
       = Some [FinEntry 4 ''BTCUSDT'' 3 [''fund-1'']]"
  by (simp add: closingState_def engine_defs script_defs)

lemma closing_33333:
  "close_orders 4 (run rt0 closingState (close_script 5 9100
       [reading ''3'' ''c1'', reading ''3'' ''c2'', reading ''3'' ''c3'', reading ''3'' ''c4'',
        reading ''3'' ''c5''])) = 5
   \<and> map_of (tasks (run rt0 closingState (close_script 5 9100
       [reading ''3'' ''c1'', reading ''3'' ''c2'', reading ''3'' ''c3'', reading ''3'' ''c4'',
        reading ''3'' ''c5'']))) 5
       = Some [FinEntry 4 ''BTCUSDT'' 3 [''fund-1'']]"
  by (simp add: closingState_def engine_defs script_defs)

lemma closePosition_sized_cases:
  "closePosition_sized rt resp cid sy ref side attempt s =
     (case getPositionSize rt resp of
        Inl e \<Rightarrow> (s, [CloseSleep cid sy ref side attempt])
      | Inr currentSize \<Rightarrow>
          if currentSize \<le> 0 \<or> bad_price (closeReference sy ref side s)
          then finalizePosition cid sy s
          else (s, [CloseOrder cid sy ref side attempt
                      (closeInput sy side (the (closeReference sy ref side s)) currentSize)]))"
  by (simp add: closePosition_sized_def closeReference_def closeInput_def Let_def
      split: sum.splits)

lemma closeReference_set_task [simp]:
  "closeReference sy ref side (set_task tid stack s) = closeReference sy ref side s"
  by (simp add: closeReference_def set_task_def split: option.splits)

lemma map_of_heap_update:
  "map_option ap_entryPrice (map_of (map (\<lambda>(r, position). if r = ref
        then (r, position\<lparr> ap_closeOrderLinkIds := ap_closeOrderLinkIds position @ [l] \<rparr>)
        else (r, position)) h) k) = map_option ap_entryPrice (map_of h k)"
proof (induction h)
  case Nil
  then show ?case by simp
next
  case (Cons e h)
  obtain r p where e: "e = (r, p)" by (cases e)
  show ?case using Cons by (cases "r = ref"; cases "k = r") (simp_all add: e)
qed

lemma closeReference_ordered:
  "closeReference sy ref' side' (fst (closePosition_ordered rt env cid sy0 ref side attempt input s))
     = closeReference sy ref' side' s"
  by (auto simp: closePosition_ordered_def closeReference_def Let_def map_of_heap_update
      split: prod.splits sum.splits option.splits)

lemma close_spec_done [simp]: "close_spec rt price sy side 0 attempts = (0, True)"
  by (cases attempts) simp_all


lemma sleep_resumes:
  assumes ne: "\<not> exited t" and st: "map_of (tasks t) tid = Some [CloseSleep cid sy ref side attempt]"
  shows "close_orders cid (step rt t (Respond tid now R_sleep)) = close_orders cid t
         \<and> resumes tid cid sy ref side attempt t (step rt t (Respond tid now R_sleep))"
proof -
  obtain s3 fs3 where a3: "closePosition_loop cid sy ref side (Suc attempt) t = (s3, fs3)"
    by (cases "closePosition_loop cid sy ref side (Suc attempt) t")
  have adv3: "advance rt now R_sleep (CloseSleep cid sy ref side attempt) t = (s3, fs3)"
    using a3 by (simp add: advance_def)
  have s3: "s3 = t" using closePosition_loop_frames [OF a3] by simp
  have e3: "step rt t (Respond tid now R_sleep) = set_task tid fs3 t"
    using step_single [OF ne st adv3] s3 by simp
  show ?thesis
  proof (cases "Suc attempt \<le> 5")
    case True
    then have "fs3 = [CloseSize cid sy ref side (Suc attempt)]"
      using closePosition_loop_frames [OF a3] by simp
    then show ?thesis unfolding e3 resumes_def using True ne
      by (simp add: tasks_set_task MAX_CLOSE_ATTEMPTS_def)
  next
    case False
    then have "fs3 = [] \<or> (\<exists>ref' ids. fs3 = [FinEntry cid sy ref' ids])"
      using closePosition_loop_frames [OF a3] by simp
    then have "finalizing tid cid (set_task tid fs3 t)" by (rule finalizing_frames)
    then show ?thesis unfolding e3 resumes_def using False
      by (simp add: MAX_CLOSE_ATTEMPTS_def)
  qed
qed

lemma attempt_exact:
  assumes ne: "\<not> exited s"
    and st: "map_of (tasks s) tid = Some [CloseSize cid sy ref side attempt]"
  shows "(case getPositionSize rt (fst a) of
            Inl e \<Rightarrow>
              close_orders cid (run rt s (attempt_events tid now a)) = close_orders cid s
              \<and> resumes tid cid sy ref side attempt s (run rt s (attempt_events tid now a))
          | Inr currentSize \<Rightarrow>
              if currentSize \<le> 0 \<or> bad_price (closeReference sy ref side s)
              then close_orders cid (run rt s (attempt_events tid now a)) = close_orders cid s
                   \<and> finalizing tid cid (run rt s (attempt_events tid now a))
              else close_orders cid (run rt s (attempt_events tid now a))
                     = close_orders cid s
                       + length (snd (placeLimitOrder rt (snd a)
                           (closeInput sy side (the (closeReference sy ref side s)) currentSize)))
                   \<and> resumes tid cid sy ref side attempt s (run rt s (attempt_events tid now a)))"
proof -
  define t1 where "t1 = step rt s (Respond tid now (R_position (fst a)))"
  have run3: "run rt s (attempt_events tid now a)
        = step rt (step rt t1 (Respond tid now (R_order (snd a)))) (Respond tid now R_sleep)"
    by (simp add: run_def attempt_events_def t1_def del: step.simps)
  have adv: "advance rt now (R_position (fst a)) (CloseSize cid sy ref side attempt) s
               = closePosition_sized rt (fst a) cid sy ref side attempt s"
    by (simp add: advance_def)
  show ?thesis
  proof (cases "getPositionSize rt (fst a)")
    case (Inl e)
    have a1: "advance rt now (R_position (fst a)) (CloseSize cid sy ref side attempt) s
                = (s, [CloseSleep cid sy ref side attempt])"
      using Inl by (simp add: adv closePosition_sized_cases)
    have e1: "t1 = set_task tid [CloseSleep cid sy ref side attempt] s"
      unfolding t1_def using step_single [OF ne st a1] .
    have t1s: "\<not> exited t1" "map_of (tasks t1) tid = Some [CloseSleep cid sy ref side attempt]"
      "close_orders cid t1 = close_orders cid s"
      "closeReference sy ref side t1 = closeReference sy ref side s"
      using e1 ne by (simp_all add: tasks_set_task)
    have a2: "advance rt now (R_order (snd a)) (CloseSleep cid sy ref side attempt) t1
                = (t1, [CloseSleep cid sy ref side attempt])"
      by (simp add: advance_def)
    have e2: "step rt t1 (Respond tid now (R_order (snd a))) = t1"
      using step_single [OF t1s(1) t1s(2) a2] set_task_same [OF t1s(2)] by simp
    from sleep_resumes [OF t1s(1) t1s(2), of rt now] show ?thesis
      unfolding run3 e2 using Inl t1s(3,4) by (simp add: resumes_def del: step.simps)
  next
    case (Inr currentSize)
    show ?thesis
    proof (cases "currentSize \<le> 0 \<or> bad_price (closeReference sy ref side s)")
      case True
      obtain s1 fs where fp: "finalizePosition cid sy s = (s1, fs)"
        by (cases "finalizePosition cid sy s")
      have a1: "advance rt now (R_position (fst a)) (CloseSize cid sy ref side attempt) s = (s1, fs)"
        using Inr True fp by (simp add: adv closePosition_sized_cases)
      have e1: "t1 = set_task tid fs s1" unfolding t1_def using step_single [OF ne st a1] .
      have s1: "s1 = s" and shape: "fs = [] \<or> (\<exists>ref' ids. fs = [FinEntry cid sy ref' ids])"
        using finalizePosition_frames [OF fp] by auto
      have f: "finalizing tid cid t1" unfolding e1 using shape by (rule finalizing_frames)
      have "run rt s (attempt_events tid now a) = t1"
        unfolding run3 using f by (simp add: finalizing_step del: step.simps)
      then show ?thesis using Inr True f e1 s1 by simp
    next
      case False
      let ?input = "closeInput sy side (the (closeReference sy ref side s)) currentSize"
      have a1: "advance rt now (R_position (fst a)) (CloseSize cid sy ref side attempt) s
                  = (s, [CloseOrder cid sy ref side attempt ?input])"
        using Inr False by (simp add: adv closePosition_sized_cases)
      have e1: "t1 = set_task tid [CloseOrder cid sy ref side attempt ?input] s"
        unfolding t1_def using step_single [OF ne st a1] .
      have t1s: "\<not> exited t1" "map_of (tasks t1) tid = Some [CloseOrder cid sy ref side attempt ?input]"
        "close_orders cid t1 = close_orders cid s"
        "closeReference sy ref side t1 = closeReference sy ref side s"
        using e1 ne by (simp_all add: tasks_set_task)
      obtain s2 fs2 where a2: "closePosition_ordered rt (snd a) cid sy ref side attempt ?input t1 = (s2, fs2)"
        by (cases "closePosition_ordered rt (snd a) cid sy ref side attempt ?input t1")
      have adv2: "advance rt now (R_order (snd a)) (CloseOrder cid sy ref side attempt ?input) t1 = (s2, fs2)"
        using a2 by (simp add: advance_def)
      define t2 where "t2 = step rt t1 (Respond tid now (R_order (snd a)))"
      have e2: "t2 = set_task tid fs2 s2" unfolding t2_def using step_single [OF t1s(1) t1s(2) adv2] .
      from closePosition_ordered_frames [OF a2]
      have f2: "fs2 = [CloseSleep cid sy ref side attempt]" and x2: "exited s2 = exited t1"
        and c2: "close_orders cid s2 = close_orders cid t1 + length (snd (placeLimitOrder rt (snd a) ?input))"
        by auto
      have r2: "closeReference sy ref side s2 = closeReference sy ref side t1"
        using closeReference_ordered [of sy ref side rt "snd a" cid sy ref side attempt ?input t1] a2
        by simp
      have t2s: "\<not> exited t2" "map_of (tasks t2) tid = Some [CloseSleep cid sy ref side attempt]"
        "close_orders cid t2 = close_orders cid s + length (snd (placeLimitOrder rt (snd a) ?input))"
        "closeReference sy ref side t2 = closeReference sy ref side s"
        using e2 f2 x2 c2 r2 t1s by (simp_all add: tasks_set_task)
      from sleep_resumes [OF t2s(1) t2s(2), of rt now] show ?thesis
        unfolding run3 t2_def [symmetric] using Inr False t2s(3,4)
        by (simp add: resumes_def del: step.simps)
    qed
  qed
qed


lemma script_resumed:
  assumes r: "resumes tid cid sy ref side attempt s s'"
    and le: "attempt \<le> 5"
    and IH: "\<And>t k. \<not> exited t \<Longrightarrow> map_of (tasks t) tid = Some [CloseSize cid sy ref side k] \<Longrightarrow> k \<le> 5 \<Longrightarrow>
        close_orders cid (run rt t (close_script tid now attempts))
          = close_orders cid t + fst (close_spec rt (closeReference sy ref side t) sy side (6 - k) attempts)
        \<and> (if snd (close_spec rt (closeReference sy ref side t) sy side (6 - k) attempts)
           then finalizing tid cid (run rt t (close_script tid now attempts))
           else \<not> exited (run rt t (close_script tid now attempts))
                \<and> map_of (tasks (run rt t (close_script tid now attempts))) tid
                    = Some [CloseSize cid sy ref side (k + length attempts)])"
  shows "close_orders cid (run rt s' (close_script tid now attempts))
          = close_orders cid s'
            + fst (close_spec rt (closeReference sy ref side s) sy side (6 - attempt - 1) attempts)
        \<and> (if snd (close_spec rt (closeReference sy ref side s) sy side (6 - attempt - 1) attempts)
           then finalizing tid cid (run rt s' (close_script tid now attempts))
           else \<not> exited (run rt s' (close_script tid now attempts))
                \<and> map_of (tasks (run rt s' (close_script tid now attempts))) tid
                    = Some [CloseSize cid sy ref side (Suc attempt + length attempts)])"
proof (cases "Suc attempt \<le> 5")
  case True
  have p: "\<not> exited s'" "map_of (tasks s') tid = Some [CloseSize cid sy ref side (Suc attempt)]"
    "closeReference sy ref side s' = closeReference sy ref side s"
    using r True by (simp_all add: resumes_def MAX_CLOSE_ATTEMPTS_def)
  have "6 - Suc attempt = 6 - attempt - 1" by simp
  then show ?thesis using IH [OF p(1) p(2) True] p(3) by simp
next
  case False
  then have a5: "attempt = 5" using le by simp
  have f: "finalizing tid cid s'" using r False by (simp add: resumes_def MAX_CLOSE_ATTEMPTS_def)
  have "run rt s' (close_script tid now attempts) = s'" using f by (rule finalizing_script)
  then show ?thesis using f a5 by simp
qed

lemma script_exact:
  assumes "\<not> exited s" and "map_of (tasks s) tid = Some [CloseSize cid sy ref side attempt]"
    and "attempt \<le> 5"
  shows "close_orders cid (run rt s (close_script tid now attempts))
          = close_orders cid s
            + fst (close_spec rt (closeReference sy ref side s) sy side (6 - attempt) attempts)
        \<and> (if snd (close_spec rt (closeReference sy ref side s) sy side (6 - attempt) attempts)
           then finalizing tid cid (run rt s (close_script tid now attempts))
           else \<not> exited (run rt s (close_script tid now attempts))
                \<and> map_of (tasks (run rt s (close_script tid now attempts))) tid
                    = Some [CloseSize cid sy ref side (attempt + length attempts)])"
  using assms
proof (induction attempts arbitrary: s attempt)
  case Nil
  then show ?case by (simp add: close_script_def run_def)
next
  case (Cons a attempts)
  define s' where "s' = run rt s (attempt_events tid now a)"
  let ?price = "closeReference sy ref side s"
  have sc: "run rt s (close_script tid now (a # attempts)) = run rt s' (close_script tid now attempts)"
    by (simp add: close_script_def run_append s'_def)
  have left: "6 - attempt \<noteq> 0" using Cons.prems(3) by simp
  note ex = attempt_exact [OF Cons.prems(1,2), where rt = rt and a = a and now = now,
      folded s'_def]
  note res = script_resumed [OF _ Cons.prems(3) Cons.IH, where s = s and s' = s']
  show ?case
  proof (cases "getPositionSize rt (fst a)")
    case (Inl e)
    then have c: "close_orders cid s' = close_orders cid s"
      and r: "resumes tid cid sy ref side attempt s s'"
      using ex by simp_all
    show ?thesis unfolding sc using res [OF r] c Inl left by simp
  next
    case (Inr currentSize)
    show ?thesis
    proof (cases "currentSize \<le> 0 \<or> bad_price ?price")
      case True
      then have c: "close_orders cid s' = close_orders cid s" and f: "finalizing tid cid s'"
        using ex Inr by simp_all
      have "run rt s' (close_script tid now attempts) = s'" using f by (rule finalizing_script)
      then show ?thesis unfolding sc using c f Inr True left by simp
    next
      case False
      then have c: "close_orders cid s' = close_orders cid s
            + length (snd (placeLimitOrder rt (snd a) (closeInput sy side (the ?price) currentSize)))"
        and r: "resumes tid cid sy ref side attempt s s'"
        using ex Inr by simp_all
      show ?thesis unfolding sc using res [OF r] c Inr False left
        by (simp split: prod.splits)
    qed
  qed
qed


lemma close_spec_submits:
  assumes "\<not> bad_price price" and "list_all (submits rt price sy side) attempts"
  shows "close_spec rt price sy side left attempts = (min left (length attempts), left \<le> length attempts)"
  using assms(2)
proof (induction attempts arbitrary: left)
  case Nil
  then show ?case by simp
next
  case (Cons a attempts)
  then have a: "submits rt price sy side a" and r: "list_all (submits rt price sy side) attempts"
    by simp_all
  from a obtain v where v: "getPositionSize rt (fst a) = Inr v" "0 < v"
    "length (snd (placeLimitOrder rt (snd a) (closeInput sy side (the price) v))) = 1"
    by (auto simp: submits_def split: sum.splits)
  show ?case
  proof (cases "left = 0")
    case True
    then show ?thesis by simp
  next
    case False
    then show ?thesis using v assms(1) Cons.IH [OF r, of "left - 1"] by auto
  qed
qed

lemma close_spec_flat:
  assumes "\<not> bad_price price" and "list_all (submits rt price sy side) before"
    and "getPositionSize rt (fst a) = Inr v" and "v \<le> 0" and "length before < left"
  shows "close_spec rt price sy side left (before @ a # after) = (length before, True)"
  using assms(2,5)
proof (induction before arbitrary: left)
  case Nil
  then show ?case using assms(3,4) by simp
next
  case (Cons b before)
  then have b: "submits rt price sy side b" and r: "list_all (submits rt price sy side) before"
    by simp_all
  from b obtain w where w: "getPositionSize rt (fst b) = Inr w" "0 < w"
    "length (snd (placeLimitOrder rt (snd b) (closeInput sy side (the price) w))) = 1"
    by (auto simp: submits_def split: sum.splits)
  have l: "length before < left - 1" "left \<noteq> 0" using Cons.prems(2) by simp_all
  show ?case using w assms(1) l(2) Cons.IH [OF r l(1)] by simp
qed

lemma close_spec_unpriced:
  assumes "bad_price price" and "getPositionSize rt (fst a) = Inr v" and "left \<noteq> 0"
  shows "close_spec rt price sy side left (a # rest) = (0, True)"
  using assms by simp


lemma run_unpriced:
  "unpricedState = closingState\<lparr> latestTickers :=
       [(''BTCUSDT'', \<lparr> symbol = ''BTCUSDT'', fundingRate = 0.01, fundingRateAbs = 0.01,
            markPrice = None, lastPrice = None, bidPrice = None, askPrice = None,
            nextFundingTime = Some ''4000'' \<rparr>)], nextId := 7 \<rparr>"
  by (simp add: unpricedState_def oneTrade_def unpricedPoll_def unpricedTicker_def initial_def
      closingState_def engine_defs insert_Diff_if)

lemma reading_submits:
  "submits rt0 (Some 100) ''BTCUSDT'' Buy (reading ''3'' l)"
  "submits rt0 (Some 100) ''BTCUSDT'' Buy (reading ''1'' l)"
  by (simp_all add: submits_def reading_def closeInput_def sizeResponse_def cachedOrder_def
      okFilters_def noInstrument_def getPositionSize_def placeLimitOrder_def prepareLimitOrder_def
      getInstrumentFilters_def normaliseQty_def normalisePrice_def Math_round_def
      toFixed_value_def decimalPlaces_def rt0_def decimal_val_def digit_val_def stepString_def
      Let_def)



section \<open>Properties of the schedule and position tables\<close>

lemma shrink_refl [simp]: "shrink s s"
  by (simp add: shrink_def)

lemma shrink_trans: "shrink s s1 \<Longrightarrow> shrink s1 s2 \<Longrightarrow> shrink s s2"
  by (auto simp: shrink_def)

lemma shrink_same:
  "schedules s' = schedules s \<Longrightarrow> activePositions s' = activePositions s \<Longrightarrow> shrink s s'"
  by (simp add: shrink_def sched_keys_def act_keys_def)

lemma dom_delete: "dom (map_of (AList.delete k al)) = dom (map_of al) - {k}"
  by (simp add: delete_conv')

lemma dom_update: "dom (map_of (AList.update k v al)) = insert k (dom (map_of al))"
  by (simp add: update_conv')

lemma shrink_maps: "maps s' = maps s \<Longrightarrow> shrink s s'"
  by (simp add: maps_def shrink_same)

lemma keys_maps: "maps s' = maps s \<Longrightarrow> sched_keys s' = sched_keys s \<and> act_keys s' = act_keys s"
  by (simp add: maps_def sched_keys_def act_keys_def)

lemma maps_clearTimeout [simp]: "maps (clearTimeout t s) = maps s"
  by (simp add: maps_def clearTimeout_def)

lemma keys_clearSchedule:
  "sched_keys (clearSchedule sy s) = sched_keys s - {sy}"
  "act_keys (clearSchedule sy s) = act_keys s"
  by (simp_all add: clearSchedule_def clearTimeout_def Let_def sched_keys_def act_keys_def dom_delete
      split: option.splits)

lemma shrink_clearSchedule [simp]: "shrink s (clearSchedule sy s)"
  by (auto simp: shrink_def keys_clearSchedule)

lemma keys_clearActivePosition:
  "sched_keys (clearActivePosition sy s) = sched_keys s"
  "act_keys (clearActivePosition sy s) = act_keys s - {sy}"
  by (simp_all add: clearActivePosition_def clearTimeout_def Let_def sched_keys_def act_keys_def
      dom_delete split: option.splits)

lemma shrink_clearActivePosition [simp]: "shrink s (clearActivePosition sy s)"
  by (auto simp: shrink_def keys_clearActivePosition)

lemma maps_spawn [simp]: "maps (spawn st s) = maps s"
  by (simp add: maps_def spawn_def)

lemma maps_openPosition_finally [simp]: "maps (openPosition_finally sy s) = maps s"
  by (simp add: maps_def openPosition_finally_def)

lemma maps_openPosition [simp]: "maps (openPosition sy ft s) = maps s"
  by (simp add: maps_def openPosition_def spawn_def)

lemma maps_finalizePosition [simp]: "maps (fst (finalizePosition cid sy s)) = maps s"
  by (simp add: finalizePosition_def split: option.splits)

lemma maps_closePosition_loop [simp]:
  "maps (fst (closePosition_loop cid sy ref side attempt s)) = maps s"
  by (simp add: closePosition_loop_def)

lemma maps_closePosition [simp]: "maps (fst (closePosition sy s)) = maps s"
proof -
  have "maps (s\<lparr> nextId := x \<rparr>) = maps s" for x by (simp add: maps_def)
  then show ?thesis by (simp add: closePosition_def Let_def split: option.splits)
qed

lemma maps_closePosition_sized [simp]:
  "maps (fst (closePosition_sized rt resp cid sy ref side attempt s)) = maps s"
  by (simp add: closePosition_sized_def Let_def split: sum.splits option.splits)

lemma maps_closePosition_ordered [simp]:
  "maps (fst (closePosition_ordered rt env cid sy ref side attempt input s)) = maps s"
  by (simp add: closePosition_ordered_def Let_def maps_def split: sum.splits prod.splits)

lemma maps_shutdown_loop [simp]: "maps (fst (shutdown_loop keys s)) = maps s"
proof (induction keys arbitrary: s)
  case Nil
  then show ?case by simp
next
  case (Cons sy keys)
  obtain s1 fs where c: "closePosition sy s = (s1, fs)" by (cases "closePosition sy s")
  have "maps (fst (closePosition sy s)) = maps s" by simp
  then have "maps s1 = maps s" using c by simp
  then show ?case using Cons c by simp
qed

lemma shrink_foldl:
  assumes "\<And>x s. shrink s (f s x)"
  shows "shrink s (foldl f s xs)"
proof (induction xs arbitrary: s)
  case Nil
  then show ?case by simp
next
  case (Cons x xs)
  show ?case using assms [of s x] Cons [of "f s x"] by (auto intro: shrink_trans)
qed

lemma shrink_shutdown [simp]: "shrink s (fst (shutdown who s))"
proof -
  let ?s1 = "s\<lparr> trace := trace s @ [ShutdownCalled who], pollHandle := False, monitorHandle := False \<rparr>"
  let ?s2 = "foldl (\<lambda>s sy. clearSchedule sy s) ?s1 (map fst (schedules ?s1))"
  have a: "shrink s ?s1" by (simp add: shrink_same)
  have b: "shrink ?s1 ?s2" by (rule shrink_foldl) simp
  have c: "shrink ?s2 (fst (shutdown_loop (map fst (activePositions ?s2)) ?s2))"
    by (simp add: shrink_maps)
  show ?thesis unfolding shutdown_def Let_def using a b c shrink_trans by blast
qed

lemma maps_finalizePosition_entry [simp]:
  "maps (fst (finalizePosition_entry rt venue cid sy ref ids s)) = maps s"
  by (simp add: finalizePosition_entry_def Let_def)

lemma maps_finalizePosition_close [simp]:
  "maps (fst (finalizePosition_close rt now venue cid sy ref es ids s)) = maps s"
  by (simp add: finalizePosition_close_def Let_def)

lemma maps_finalizePosition_funding [simp]:
  "maps (fst (finalizePosition_funding rt now resp cid sy gross fees st en s)) = maps s"
  by (simp add: finalizePosition_funding_def)

lemma shrink_finalizePosition_caught [simp]: "shrink s (fst (finalizePosition_caught sy s))"
  by (simp add: finalizePosition_caught_def)

lemma shrink_finalizePosition_balance [simp]:
  "shrink s (fst (finalizePosition_balance rt resp cid sy gross fees funding s))"
proof -
  let ?l = "s\<lparr> trace := trace s @ closed_log rt resp sy gross fees funding s \<rparr>"
  let ?s0 = "?l\<lparr> tradingEnabled := False \<rparr>"
  obtain s1 fs where sh: "shutdown ByBreach ?s0 = (s1, fs)" by (cases "shutdown ByBreach ?s0")
  have "shrink ?s0 (fst (shutdown ByBreach ?s0))" by simp
  moreover have "shrink s ?s0" by (simp add: shrink_same)
  ultimately have a: "shrink s s1" using sh shrink_trans by fastforce
  have b: "shrink s (clearActivePosition sy s1)"
    using a shrink_clearActivePosition shrink_trans by blast
  have "shrink s ?l" by (simp add: shrink_same)
  then have c: "shrink s (clearActivePosition sy ?l)"
    using shrink_clearActivePosition shrink_trans by blast
  show ?thesis
    by (simp add: finalizePosition_balance_cases Let_def sh a b c)
qed

lemma maps_main_balance [simp]: "maps (fst (main_balance rt resp s)) = maps s"
  by (simp add: main_balance_def Let_def maps_def split: sum.splits)

lemma maps_openPosition_refreshed [simp]:
  "maps (fst (openPosition_refreshed rt resp sy ft ticker s)) = maps s"
  by (simp add: openPosition_refreshed_def Let_def maps_def openPosition_finally_def
      split: sum.splits option.splits prod.splits)

lemma maps_set_task [simp]: "maps (set_task tid stack s) = maps s"
  by (simp add: set_task_def maps_def)

lemma shrink_continue_ret [simp]: "shrink s (fst (continue_ret s stack))"
proof (induction s stack rule: continue_ret.induct)
  case (2 s rest)
  obtain s1 fs where c: "shutdown_loop (map fst (activePositions s)) s = (s1, fs)"
    by (cases "shutdown_loop (map fst (activePositions s)) s")
  have "maps (fst (shutdown_loop (map fst (activePositions s)) s)) = maps s" by simp
  then have r: "shrink s s1" using c by (simp add: shrink_maps)
  show ?case using 2 c r by (cases "fs = []") (auto intro: shrink_trans)
next
  case (3 s cid sy rest)
  have "shrink s (clearActivePosition sy s)" by simp
  then show ?case using 3 shrink_trans by fastforce
qed (simp_all add: shrink_same)

lemma keys_scheduleTrade:
  "sched_keys (scheduleTrade rt ticker now s) \<subseteq> insert (symbol ticker) (sched_keys s)"
  "act_keys (scheduleTrade rt ticker now s) = act_keys s"
proof -
  have a: "sched_keys (if c then clearSchedule sy s else s) \<subseteq> sched_keys s" for c sy
    by (auto simp: keys_clearSchedule)
  have b: "act_keys (if c then clearSchedule sy s else s) = act_keys s" for c sy
    by (auto simp: keys_clearSchedule)
  have k: "sched_keys (openPosition sy ft s') = sched_keys s' \<and> act_keys (openPosition sy ft s') = act_keys s'"
    for sy ft s' by (rule keys_maps) simp
  have u: "sched_keys (s'\<lparr> timers := t, nextId := n, schedules := AList.update sy e (schedules s') \<rparr>)
             = insert sy (sched_keys s')
           \<and> act_keys (s'\<lparr> timers := t, nextId := n, schedules := AList.update sy e (schedules s') \<rparr>)
             = act_keys s'" for s' t n sy e
    by (simp add: sched_keys_def act_keys_def dom_update)
  show "sched_keys (scheduleTrade rt ticker now s) \<subseteq> insert (symbol ticker) (sched_keys s)"
    using a [of _ "symbol ticker"]
    by (auto simp: scheduleTrade_def Let_def setTimeout_def k u keys_clearSchedule split: option.splits)
  show "act_keys (scheduleTrade rt ticker now s) = act_keys s"
    using b [of _ "symbol ticker"]
    by (auto simp: scheduleTrade_def Let_def setTimeout_def k u keys_clearSchedule split: option.splits)
qed

lemma keys_scheduleTrade_foldl:
  "sched_keys (foldl (\<lambda>s ticker. scheduleTrade rt ticker now s) s ts) \<subseteq> sched_keys s \<union> symbol ` set ts
   \<and> act_keys (foldl (\<lambda>s ticker. scheduleTrade rt ticker now s) s ts) = act_keys s"
proof (induction ts arbitrary: s)
  case Nil
  then show ?case by simp
next
  case (Cons t ts)
  show ?case using Cons [of "scheduleTrade rt t now s"] keys_scheduleTrade [of rt t now s]
    by auto
qed

lemma keys_pollTickers_fetched:
  "sched_keys (pollTickers_fetched rt now resp s)
     \<subseteq> sched_keys s \<union> (case parseTickerResponse resp of
                            Inl e \<Rightarrow> {}
                          | Inr raw \<Rightarrow> symbol ` set (selectTop rt (fetchTopFundingTickers rt 50 raw)))
   \<and> act_keys (pollTickers_fetched rt now resp s) = act_keys s"
proof (cases "parseTickerResponse resp")
  case (Inl e)
  then show ?thesis by (simp add: pollTickers_fetched_def)
next
  case (Inr raw)
  let ?tickers = "fetchTopFundingTickers rt 50 raw"
  let ?s1 = "foldl (\<lambda>s ticker. s\<lparr> latestTickers :=
                 AList.update (symbol ticker) ticker (latestTickers s) \<rparr>) s ?tickers"
  let ?sorted = "selectTop rt ?tickers"
  let ?s2 = "foldl (\<lambda>s ticker. scheduleTrade rt ticker now s) ?s1 ?sorted"
  have m: "maps (foldl (\<lambda>s ticker. s\<lparr> latestTickers :=
                 AList.update (symbol ticker) ticker (latestTickers s) \<rparr>) s ts) = maps s" for ts
    by (induction ts arbitrary: s) (simp_all add: maps_def)
  have k1: "sched_keys ?s1 = sched_keys s \<and> act_keys ?s1 = act_keys s" by (rule keys_maps) (rule m)
  have k2: "sched_keys ?s2 \<subseteq> sched_keys s \<union> symbol ` set ?sorted \<and> act_keys ?s2 = act_keys s"
    using keys_scheduleTrade_foldl [of rt now ?s1 ?sorted] k1 by simp
  have k3: "sched_keys (foldl (\<lambda>s sy. if c sy then clearSchedule sy s else s) s' ks) \<subseteq> sched_keys s'
            \<and> act_keys (foldl (\<lambda>s sy. if c sy then clearSchedule sy s else s) s' ks) = act_keys s'"
    for c s' ks
  proof (induction ks arbitrary: s')
    case Nil
    then show ?case by simp
  next
    case (Cons a ks)
    let ?t = "if c a then clearSchedule a s' else s'"
    have "sched_keys ?t \<subseteq> sched_keys s' \<and> act_keys ?t = act_keys s'"
      by (auto simp: keys_clearSchedule)
    then show ?case using Cons [of ?t] by auto
  qed
  show ?thesis
    using Inr k2 k3 [of "\<lambda>sy. sy \<notin> set (map symbol ?sorted)" ?s2 "map fst (schedules ?s2)"]
    by (simp add: pollTickers_fetched_def Let_def) blast
qed

lemma keys_openPosition_ordered:
  "sched_keys (fst (openPosition_ordered rt now env sy ft input s)) = sched_keys s
   \<and> act_keys (fst (openPosition_ordered rt now env sy ft input s)) \<subseteq> insert sy (act_keys s)"
  by (auto simp: openPosition_ordered_def Let_def setTimeout_def openPosition_finally_def
      sched_keys_def act_keys_def dom_update split: sum.splits prod.splits)

lemma grows_shrink: "shrink s s' \<Longrightarrow> grows s s' A E"
  by (auto simp: grows_def shrink_def)

lemma grows_then_shrink: "grows s s1 A E \<Longrightarrow> shrink s1 s2 \<Longrightarrow> grows s s2 A E"
  by (auto simp: grows_def shrink_def)

lemma advance_grows:
  "grows s (fst (advance rt now resp f s)) (frame_arms rt f resp) (frame_enters f resp)"
proof (cases f)
  case PollFetch
  show ?thesis
  proof (cases resp)
    case (R_tickers r)
    then show ?thesis using PollFetch keys_pollTickers_fetched [of rt now r s]
      by (auto simp: advance_def grows_def frame_arms_def frame_enters_def split: sum.splits)
  qed (simp_all add: PollFetch advance_def grows_shrink)
next
  case (OpenOrder sy ft input)
  show ?thesis
  proof (cases resp)
    case (R_order env)
    then show ?thesis using OpenOrder keys_openPosition_ordered [of rt now env sy ft input s]
      by (auto simp: advance_def grows_def frame_arms_def frame_enters_def)
  qed (simp_all add: OpenOrder advance_def grows_shrink)
qed (cases resp; simp add: advance_def grows_shrink shrink_maps)+

lemma step_grows: "grows s (step rt s e) (armable rt s e) (enterable s e)"
proof (cases e)
  case (Respond tid now resp)
  show ?thesis
  proof (cases "exited s \<or> map_of (tasks s) tid = None \<or> map_of (tasks s) tid = Some []")
    case True
    then show ?thesis using Respond by (auto simp: grows_shrink)
  next
    case False
    then obtain f rest where t: "map_of (tasks s) tid = Some (f # rest)"
      by (cases "map_of (tasks s) tid"; cases "the (map_of (tasks s) tid)") auto
    obtain s1 fs where a: "advance rt now resp f s = (s1, fs)" by (cases "advance rt now resp f s")
    have g1: "grows s s1 (frame_arms rt f resp) (frame_enters f resp)"
      using advance_grows [of s rt now resp f] a by simp
    obtain s2 stack where c: "(if fs = [] then continue_ret s1 rest else (s1, fs @ rest)) = (s2, stack)"
      by (cases "(if fs = [] then continue_ret s1 rest else (s1, fs @ rest))")
    have "shrink s1 s2"
    proof (cases "fs = []")
      case True
      then have "s2 = fst (continue_ret s1 rest)" using c by simp
      then show ?thesis by simp
    next
      case False
      then show ?thesis using c by simp
    qed
    then have "shrink s1 (set_task tid stack s2)"
      using shrink_maps [of "set_task tid stack s2" s2] shrink_trans by simp
    then have "grows s (set_task tid stack s2) (frame_arms rt f resp) (frame_enters f resp)"
      using g1 grows_then_shrink by blast
    moreover have "step rt s e = set_task tid stack s2" using Respond False t a c by simp
    moreover have "armable rt s e = frame_arms rt f resp" "enterable s e = frame_enters f resp"
      using Respond t False by (simp_all add: armable_def enterable_def)
    ultimately show ?thesis by simp
  qed
next
  case (TimerFire t now)
  have a: "shrink s ((clearTimeout t s)\<lparr> schedules := AList.delete sy (schedules s) \<rparr>)" for sy
    by (auto simp: shrink_def sched_keys_def act_keys_def clearTimeout_def dom_delete)
  have b: "shrink s (openPosition sy ft ((clearTimeout t s)\<lparr> schedules := AList.delete sy (schedules s) \<rparr>))"
    for sy ft using a [of sy] shrink_maps shrink_trans by (metis maps_openPosition)
  have c: "shrink s (spawn fs s1)" if "closePosition sy (clearTimeout t s) = (s1, fs)" for sy s1 fs
  proof -
    have "maps (fst (closePosition sy (clearTimeout t s))) = maps s" by simp
    then show ?thesis using that by (simp add: shrink_maps)
  qed
  show ?thesis using TimerFire
    by (auto simp: grows_shrink b c split: option.splits timer_callback.splits prod.splits)
next
  case PollTick
  then show ?thesis by (simp add: grows_shrink shrink_maps)
next
  case Signal
  obtain s1 fs where sh: "shutdown BySignal s = (s1, fs)" by (cases "shutdown BySignal s")
  have "shrink s (fst (shutdown BySignal s))" by simp
  then have r: "shrink s s1" using sh by simp
  then have "shrink s (s1\<lparr> exited := True \<rparr>)" "shrink s (spawn (fs @ [SignalExit]) s1)"
    by (auto simp: shrink_def sched_keys_def act_keys_def spawn_def)
  then show ?thesis using Signal sh by (simp add: grows_shrink)
qed

lemma arm_enter_disjoint: "armable rt s e = {} \<or> enterable s e = {}"
  by (auto simp: armable_def enterable_def frame_arms_def frame_enters_def
      split: event.splits option.splits list.splits frame.splits response.splits)

text \<open>
  Claim C1, as the code has it.  The initial state holds no symbol in both tables.  A step
  of the event loop adds schedule entries only for symbols of the poll selection it
  handles, and adds an open position only for the symbol whose entry order it completes;
  every other step (timer hand-off, \<open>closePosition\<close>, \<open>finalizePosition\<close>,
  \<open>shutdown\<close>) only removes.  So a step keeps the two tables disjoint whenever the
  selection it arms holds no symbol with an open position and the symbol it enters has no
  schedule entry; and the firing open timer (a timer fires once it is due) removes the
  schedule entry of its symbol before \<open>openPosition\<close> runs.  \<open>scheduleTrade\<close> itself never looks at \<open>activePositions\<close>.
\<close>

theorem exclusivity_step:
  "exclusive initial
   \<and> sched_keys (step rt s e) \<subseteq> sched_keys s \<union> armable rt s e
   \<and> act_keys (step rt s e) \<subseteq> act_keys s \<union> enterable s e
   \<and> (exclusive s \<and> armable rt s e \<inter> act_keys s = {} \<and> enterable s e \<inter> sched_keys s = {}
        \<longrightarrow> exclusive (step rt s e))
   \<and> (\<not> exited s \<and> map_of (timers s) t
            = Some \<lparr> pt_due = due, pt_callback = OpenTimer sy fundingTime \<rparr> \<and> due \<le> now
        \<longrightarrow> sy \<notin> sched_keys (step rt s (TimerFire t now)))"
proof -
  have a: "exclusive initial" by (simp add: exclusive_def sched_keys_def act_keys_def initial_def)
  have g: "sched_keys (step rt s e) \<subseteq> sched_keys s \<union> armable rt s e
         \<and> act_keys (step rt s e) \<subseteq> act_keys s \<union> enterable s e"
    using step_grows [of s rt e] by (simp add: grows_def)
  have p: "exclusive (step rt s e)"
    if "exclusive s" "armable rt s e \<inter> act_keys s = {}" "enterable s e \<inter> sched_keys s = {}"
    using that g arm_enter_disjoint [of rt s e] unfolding exclusive_def by blast
  have h: "sy \<notin> sched_keys (step rt s (TimerFire t now))"
    if "\<not> exited s" "map_of (timers s) t
            = Some \<lparr> pt_due = due, pt_callback = OpenTimer sy fundingTime \<rparr>" "due \<le> now"
  proof -
    let ?s1 = "(clearTimeout t s)\<lparr> schedules := AList.delete sy (schedules s) \<rparr>"
    have "sched_keys (openPosition sy fundingTime ?s1) = sched_keys ?s1"
      using keys_maps [of "openPosition sy fundingTime ?s1" ?s1] by simp
    moreover have "sy \<notin> sched_keys ?s1" by (simp add: sched_keys_def dom_delete)
    ultimately show ?thesis using that by simp
  qed
  show ?thesis using a g p h by blast
qed

lemmas keys_defs = exclusive_def sched_keys_def act_keys_def armable_def enterable_def
  frame_arms_def frame_enters_def

theorem exclusivity_step_witness:
  "exclusive pollingState
   \<and> armable rt0 pollingState otherSymbolPoll = {''ETHUSDT''}
   \<and> act_keys pollingState = {''BTCUSDT''}
   \<and> enterable pollingState otherSymbolPoll = {}
   \<and> sched_keys (step rt0 pollingState otherSymbolPoll) = {''ETHUSDT''}
   \<and> exclusive (step rt0 pollingState otherSymbolPoll)
   \<and> map_of (timers armedState) 1
        = Some \<lparr> pt_due = 4000, pt_callback = OpenTimer ''BTCUSDT'' 9000 \<rparr>
   \<and> sched_keys armedState = {''BTCUSDT''}
   \<and> ''BTCUSDT'' \<notin> sched_keys (step rt0 armedState (TimerFire 1 4000))"
proof -
  have h1: "exclusive pollingState"
    by (simp add: pollingState_def closingState_def keys_defs engine_defs)
  have h2: "armable rt0 pollingState otherSymbolPoll = {''ETHUSDT''}"
    by (simp add: pollingState_def otherSymbolPoll_def closingState_def keys_defs engine_defs)
  have h3: "act_keys pollingState = {''BTCUSDT''}"
    by (simp add: pollingState_def closingState_def keys_defs engine_defs)
  have h4: "enterable pollingState otherSymbolPoll = {}"
    by (simp add: pollingState_def otherSymbolPoll_def closingState_def keys_defs engine_defs)
  have h5: "sched_keys (step rt0 pollingState otherSymbolPoll) = {''ETHUSDT''}"
    by (simp add: pollingState_def otherSymbolPoll_def closingState_def keys_defs engine_defs)
  have h6: "sched_keys pollingState = {}"
    by (simp add: pollingState_def closingState_def keys_defs engine_defs)
  have t1: "\<not> exited armedState" "map_of (timers armedState) 1
        = Some \<lparr> pt_due = 4000, pt_callback = OpenTimer ''BTCUSDT'' 9000 \<rparr>"
    "sched_keys armedState = {''BTCUSDT''}"
    by (simp_all add: armedState_eq initial_def sched_keys_def)
  show ?thesis
    using h1 h2 h3 h4 h5 h6 t1
      exclusivity_step [of rt0 pollingState otherSymbolPoll 1 4000 "''BTCUSDT''" 9000 4000]
      exclusivity_step [of rt0 armedState PollTick 1 4000 "''BTCUSDT''" 9000 4000]
    by simp
qed

text \<open>
  A position is opened for the event at 4000; while it is open, a poll reports the event
  time 11000 at time 2000 and \<open>scheduleTrade\<close> arms the same symbol.
\<close>

theorem exclusivity_counterexample:
  "map_of (schedules (run rt0 initial armWhileOpen)) ''BTCUSDT''
       = Some \<lparr> st_fundingTime = 11000, st_openTimer = 5 \<rparr>
   \<and> map_of (activePositions (run rt0 initial armWhileOpen)) ''BTCUSDT'' = Some 3
   \<and> \<not> exclusive (run rt0 initial armWhileOpen)"
  by (simp add: armWhileOpen_def initial_def keys_defs engine_defs insert_Diff_if)

section \<open>Properties of finalization\<close>

lemma trace_clearTimeout [simp]: "trace (clearTimeout t s) = trace s"
  by (simp add: clearTimeout_def)

lemma trace_clearSchedule [simp]: "trace (clearSchedule sy s) = trace s"
  by (simp add: clearSchedule_def Let_def split: option.splits)

lemma trace_clearActivePosition [simp]: "trace (clearActivePosition sy s) = trace s"
  by (simp add: clearActivePosition_def Let_def split: option.splits)

lemma trace_finalizePosition [simp]: "trace (fst (finalizePosition cid sy s)) = trace s"
  by (simp add: finalizePosition_def split: option.splits)

lemma trace_closePosition_loop [simp]:
  "trace (fst (closePosition_loop cid sy ref side attempt s)) = trace s"
  by (simp add: closePosition_loop_def)

lemma trace_closePosition [simp]: "trace (fst (closePosition sy s)) = trace s"
  by (simp add: closePosition_def Let_def split: option.splits)

lemma trace_shutdown_loop [simp]: "trace (fst (shutdown_loop keys s)) = trace s"
proof (induction keys arbitrary: s)
  case Nil
  then show ?case by simp
next
  case (Cons sy keys)
  obtain s1 fs where c: "closePosition sy s = (s1, fs)" by (cases "closePosition sy s")
  have "trace (fst (closePosition sy s)) = trace s" by simp
  then have "trace s1 = trace s" using c by simp
  then show ?case using Cons c by simp
qed

lemma trace_foldl_clearSchedule [simp]:
  "trace (foldl (\<lambda>s sy. clearSchedule sy s) s ks) = trace s"
  by (induction ks arbitrary: s) simp_all

lemma trace_shutdown [simp]: "trace (fst (shutdown who s)) = trace s @ [ShutdownCalled who]"
  by (simp add: shutdown_def Let_def)

lemma trace_continue_ret [simp]: "trace (fst (continue_ret s stack)) = trace s"
proof (induction s stack rule: continue_ret.induct)
  case (2 s rest)
  obtain s1 fs where c: "shutdown_loop (map fst (activePositions s)) s = (s1, fs)"
    by (cases "shutdown_loop (map fst (activePositions s)) s")
  have "trace (fst (shutdown_loop (map fst (activePositions s)) s)) = trace s" by simp
  then have r: "trace s1 = trace s" using c by simp
  show ?case using 2 c r by (cases "fs = []") simp_all
qed simp_all

lemma trace_set_task [simp]: "trace (set_task tid stack s) = trace s"
  by (simp add: set_task_def)

lemma trace_step_respond:
  assumes "\<not> exited s" and "map_of (tasks s) tid = Some (f # rest)"
  shows "trace (step rt s (Respond tid now resp)) = trace (fst (advance rt now resp f s))"
proof -
  obtain s1 fs where a: "advance rt now resp f s = (s1, fs)" by (cases "advance rt now resp f s")
  obtain s2 stack where c: "(if fs = [] then continue_ret s1 rest else (s1, fs @ rest)) = (s2, stack)"
    by (cases "(if fs = [] then continue_ret s1 rest else (s1, fs @ rest))")
  have "trace s2 = trace s1"
  proof (cases "fs = []")
    case True
    then have "s2 = fst (continue_ret s1 rest)" using c by simp
    then show ?thesis by simp
  next
    case False
    then show ?thesis using c by simp
  qed
  then have "trace (set_task tid stack s2) = trace s1" by simp
  moreover have "step rt s (Respond tid now resp) = set_task tid stack s2"
    using assms a c by simp
  ultimately show ?thesis using a by simp
qed

lemma trace_finalizePosition_balance:
  "trace (fst (finalizePosition_balance rt resp cid sy gross fees funding s))
     = trace s @ closed_log rt resp sy gross fees funding s
       @ (if breach rt resp s \<and> tradingEnabled s then [ShutdownCalled ByBreach] else [])"
proof -
  let ?s0 = "s\<lparr> trace := trace s @ closed_log rt resp sy gross fees funding s \<rparr>"
  obtain s1 fs where sh: "shutdown ByBreach (?s0\<lparr> tradingEnabled := False \<rparr>) = (s1, fs)"
    by (cases "shutdown ByBreach (?s0\<lparr> tradingEnabled := False \<rparr>)")
  have "trace (fst (shutdown ByBreach (?s0\<lparr> tradingEnabled := False \<rparr>)))
          = trace s @ closed_log rt resp sy gross fees funding s @ [ShutdownCalled ByBreach]"
    by simp
  then have b: "trace s1 = trace s @ closed_log rt resp sy gross fees funding s @ [ShutdownCalled ByBreach]"
    using sh by simp
  show ?thesis by (simp add: finalizePosition_balance_cases Let_def sh b)
qed

text \<open>The first three answers of the finalize script take the call to the wallet query.\<close>

lemma step_waiting:
  assumes "\<not> exited s" and "map_of (tasks s) tid = Some (f # rest)"
    and "advance rt now resp f s = (s, [g])"
  shows "step rt s (Respond tid now resp) = set_task tid (g # rest) s"
  using assms by simp

lemma set_task_twice:
  "stack \<noteq> [] \<Longrightarrow> stack' \<noteq> [] \<Longrightarrow> set_task tid stack (set_task tid stack' s) = set_task tid stack s"
  by (simp add: set_task_def)

lemma finalize_run:
  assumes ne: "\<not> exited s"
    and st: "map_of (tasks s) tid = Some (FinEntry cid sy ref ids # rest)"
    and hp: "map_of (heap s) ref = Some position"
  shows "run rt s (finalize_script tid now entryVenue closeVenue history wallet)
     = step rt (set_task tid
          (FinBalance cid sy
             (tradePnl (summarizeExecutions rt entryVenue ids)
                + tradePnl (summarizeExecutions rt closeVenue (ap_closeOrderLinkIds position)))
             (fee (summarizeExecutions rt entryVenue ids)
                + fee (summarizeExecutions rt closeVenue (ap_closeOrderLinkIds position)))
             (fetchFundingFee rt history (ap_openedAt position - 30 * 60 * 1000) now now) # rest) s)
         (Respond tid now (R_wallet wallet))"
proof -
  let ?e = "summarizeExecutions rt entryVenue ids"
  let ?c = "summarizeExecutions rt closeVenue (ap_closeOrderLinkIds position)"
  let ?f1 = "FinClose cid sy ref ?e (ap_closeOrderLinkIds position)"
  let ?f2 = "FinFunding cid sy (tradePnl ?e + tradePnl ?c) (fee ?e + fee ?c)
               (ap_openedAt position - 30 * 60 * 1000) now"
  let ?f3 = "FinBalance cid sy (tradePnl ?e + tradePnl ?c) (fee ?e + fee ?c)
               (fetchFundingFee rt history (ap_openedAt position - 30 * 60 * 1000) now now)"
  define s1 where "s1 = set_task tid (?f1 # rest) s"
  define s2 where "s2 = set_task tid (?f2 # rest) s"
  define s3 where "s3 = set_task tid (?f3 # rest) s"
  have a1: "advance rt now (R_executions entryVenue) (FinEntry cid sy ref ids) s = (s, [?f1])"
    using hp by (simp add: advance_def finalizePosition_entry_def)
  have e1: "step rt s (Respond tid now (R_executions entryVenue)) = s1"
    unfolding s1_def by (rule step_waiting [OF ne st a1])
  have p1: "\<not> exited s1" "map_of (tasks s1) tid = Some (?f1 # rest)" "map_of (heap s1) ref = Some position"
    using ne hp by (simp_all add: s1_def tasks_set_task) (simp add: set_task_def)
  have a2: "advance rt now (R_executions closeVenue) ?f1 s1 = (s1, [?f2])"
    using p1(3) by (simp add: advance_def finalizePosition_close_def Let_def)
  have e2: "step rt s1 (Respond tid now (R_executions closeVenue)) = s2"
    using step_waiting [OF p1(1) p1(2) a2] by (simp add: s1_def s2_def set_task_twice)
  have p2: "\<not> exited s2" "map_of (tasks s2) tid = Some (?f2 # rest)"
    using ne by (simp_all add: s2_def tasks_set_task)
  have a3: "advance rt now (R_funding history) ?f2 s2 = (s2, [?f3])"
    by (simp add: advance_def finalizePosition_funding_def)
  have e3: "step rt s2 (Respond tid now (R_funding history)) = s3"
    using step_waiting [OF p2(1) p2(2) a3] by (simp add: s2_def s3_def set_task_twice)
  have "run rt s (finalize_script tid now entryVenue closeVenue history wallet)
          = step rt (step rt (step rt (step rt s (Respond tid now (R_executions entryVenue)))
              (Respond tid now (R_executions closeVenue))) (Respond tid now (R_funding history)))
              (Respond tid now (R_wallet wallet))"
    by (simp add: run_def finalize_script_def del: step.simps)
  then show ?thesis unfolding e1 e2 e3 s3_def .
qed

lemma closed_log_set_task [simp]:
  "closed_log rt resp sy gross fees funding (set_task tid stack s)
     = closed_log rt resp sy gross fees funding s"
  by (simp add: closed_log_def set_task_def split: sum.splits)

lemma breach_set_task [simp]: "breach rt resp (set_task tid stack s) = breach rt resp s"
  by (simp add: breach_def set_task_def split: option.splits sum.splits)

lemma tradingEnabled_set_task [simp]: "tradingEnabled (set_task tid stack s) = tradingEnabled s"
  by (simp add: set_task_def)

lemma finalize_run_trace:
  assumes ne: "\<not> exited s"
    and st: "map_of (tasks s) tid = Some (FinEntry cid sy ref ids # rest)"
    and hp: "map_of (heap s) ref = Some position"
  shows "trace (run rt s (finalize_script tid now entryVenue closeVenue history wallet))
     = trace s
       @ closed_log rt wallet sy
           (tradePnl (summarizeExecutions rt entryVenue ids)
              + tradePnl (summarizeExecutions rt closeVenue (ap_closeOrderLinkIds position)))
           (fee (summarizeExecutions rt entryVenue ids)
              + fee (summarizeExecutions rt closeVenue (ap_closeOrderLinkIds position)))
           (fetchFundingFee rt history (ap_openedAt position - 30 * 60 * 1000) now now) s
       @ (if breach rt wallet s \<and> tradingEnabled s then [ShutdownCalled ByBreach] else [])"
proof -
  let ?g = "tradePnl (summarizeExecutions rt entryVenue ids)
              + tradePnl (summarizeExecutions rt closeVenue (ap_closeOrderLinkIds position))"
  let ?f = "fee (summarizeExecutions rt entryVenue ids)
              + fee (summarizeExecutions rt closeVenue (ap_closeOrderLinkIds position))"
  let ?u = "fetchFundingFee rt history (ap_openedAt position - 30 * 60 * 1000) now now"
  define s3 where "s3 = set_task tid (FinBalance cid sy ?g ?f ?u # rest) s"
  have p: "\<not> exited s3" "map_of (tasks s3) tid = Some (FinBalance cid sy ?g ?f ?u # rest)"
    using ne by (simp_all add: s3_def tasks_set_task)
  have "trace (step rt s3 (Respond tid now (R_wallet wallet)))
          = trace (fst (finalizePosition_balance rt wallet cid sy ?g ?f ?u s3))"
    using trace_step_respond [OF p, of rt now "R_wallet wallet"] by (simp add: advance_def)
  then show ?thesis
    unfolding finalize_run [OF ne st hp] s3_def [symmetric]
    by (simp add: trace_finalizePosition_balance) (simp add: s3_def)
qed

lemma fin_frame_simps:
  "fin_frame cid sy (FinEntry c y ref ids) = (c = cid \<and> y = sy)"
  "fin_frame cid sy (FinClose c y ref es ids) = (c = cid \<and> y = sy)"
  "fin_frame cid sy (FinFunding c y gross fees st en) = (c = cid \<and> y = sy)"
  "fin_frame cid sy (FinBalance c y gross fees funding) = (c = cid \<and> y = sy)"
  "fin_frame cid sy (FinShutdown c y) = (c = cid \<and> y = sy)"
  "fin_frame cid sy MainBalance = False"
  "fin_frame cid sy MainPoll = False"
  "fin_frame cid sy PollFetch = False"
  "fin_frame cid sy (OpenRefresh y ft tk) = False"
  "fin_frame cid sy (OpenOrder y ft input) = False"
  "fin_frame cid sy (CloseSize c y ref side attempt) = False"
  "fin_frame cid sy (CloseOrder c y ref side attempt input) = False"
  "fin_frame cid sy (CloseSleep c y ref side attempt) = False"
  "fin_frame cid sy ShutdownLoop = False"
  "fin_frame cid sy SignalExit = False"
  by (simp_all add: fin_frame_def)

lemma act_keys_shrink: "shrink s s' \<Longrightarrow> sy \<notin> act_keys s \<Longrightarrow> sy \<notin> act_keys s'"
  by (auto simp: shrink_def)

lemma cleared_clearActivePosition: "sy \<notin> act_keys (clearActivePosition sy s)"
  by (simp add: keys_clearActivePosition)

lemma advance_fin:
  assumes "fin_frame cid sy f" and "advance rt now resp f s = (s1, fs)"
  shows "(fs \<noteq> [] \<and> list_ex (fin_frame cid sy) fs) \<or> (fs = [] \<and> sy \<notin> act_keys s1)"
proof (cases f)
  case (FinEntry c y ref ids)
  then show ?thesis using assms
    by (cases resp)
       (auto simp: advance_def fin_frame_simps finalizePosition_entry_def finalizePosition_caught_def
          Let_def cleared_clearActivePosition)
next
  case (FinClose c y ref es ids)
  then show ?thesis using assms
    by (cases resp)
       (auto simp: advance_def fin_frame_simps finalizePosition_close_def finalizePosition_caught_def
          Let_def cleared_clearActivePosition)
next
  case (FinFunding c y gross fees st en)
  then show ?thesis using assms
    by (cases resp)
       (auto simp: advance_def fin_frame_simps finalizePosition_funding_def finalizePosition_caught_def
          cleared_clearActivePosition)
next
  case (FinBalance c y gross fees funding)
  show ?thesis
  proof (cases resp)
    case (R_wallet r)
    let ?l = "s\<lparr> trace := trace s @ closed_log rt r y gross fees funding s \<rparr>"
    obtain s0 fs0 where sh: "shutdown ByBreach (?l\<lparr> tradingEnabled := False \<rparr>) = (s0, fs0)"
      by (cases "shutdown ByBreach (?l\<lparr> tradingEnabled := False \<rparr>)")
    show ?thesis using assms FinBalance R_wallet sh
      by (auto simp: advance_def fin_frame_simps finalizePosition_balance_cases Let_def
          cleared_clearActivePosition split: if_splits)
  qed (use assms FinBalance in \<open>auto simp: advance_def fin_frame_simps finalizePosition_caught_def
          cleared_clearActivePosition\<close>)
next
  case (FinShutdown c y)
  then show ?thesis using assms by (auto simp: advance_def fin_frame_simps)
qed (use assms in \<open>simp_all add: fin_frame_simps\<close>)

lemma continue_ret_fin:
  "list_ex (fin_frame cid sy) stack \<Longrightarrow> continue_ret s stack = (s2, stack2) \<Longrightarrow>
     list_ex (fin_frame cid sy) stack2 \<or> sy \<notin> act_keys s2 \<or> exited s2"
proof (induction s stack arbitrary: s2 stack2 rule: continue_ret.induct)
  case (1 s)
  then show ?case by simp
next
  case (2 s rest)
  obtain s1 fs where c: "shutdown_loop (map fst (activePositions s)) s = (s1, fs)"
    by (cases "shutdown_loop (map fst (activePositions s)) s")
  have r: "list_ex (fin_frame cid sy) rest" using 2(2) by (simp add: fin_frame_simps)
  show ?case
  proof (cases "fs = []")
    case True
    then have "continue_ret s1 rest = (s2, stack2)" using 2(3) c by simp
    then show ?thesis using 2(1) [OF c [symmetric] True r] by simp
  next
    case False
    then show ?thesis using 2(3) c r by auto
  qed
next
  case (3 s c y rest)
  show ?case
  proof (cases "c = cid \<and> y = sy")
    case True
    have "shrink (clearActivePosition sy s) (fst (continue_ret (clearActivePosition sy s) rest))"
      by simp
    then have "sy \<notin> act_keys s2"
      using 3(3) True act_keys_shrink cleared_clearActivePosition by fastforce
    then show ?thesis by simp
  next
    case False
    then have "list_ex (fin_frame cid sy) rest" using 3(2) by (auto simp: fin_frame_simps)
    then show ?thesis using 3 by simp
  qed
next
  case (4 s rest)
  then show ?case by (simp add: fin_frame_simps)
next
  case (5 s rest)
  then show ?case by auto
qed auto

lemma step_finalize:
  assumes "in_finalize tid cid sy s"
  shows "in_finalize tid cid sy (step rt s (Respond tid now resp))
         \<or> sy \<notin> act_keys (step rt s (Respond tid now resp))
         \<or> exited (step rt s (Respond tid now resp))"
proof (cases "exited s")
  case True
  then show ?thesis using assms by simp
next
  case False
  obtain stack where st: "map_of (tasks s) tid = Some stack" "list_ex (fin_frame cid sy) stack"
    using assms by (auto simp: in_finalize_def split: option.splits)
  then obtain f rest where sf: "stack = f # rest" by (cases stack) auto
  obtain s1 fs where a: "advance rt now resp f s = (s1, fs)" by (cases "advance rt now resp f s")
  obtain s2 stack2 where c: "(if fs = [] then continue_ret s1 rest else (s1, fs @ rest)) = (s2, stack2)"
    by (cases "(if fs = [] then continue_ret s1 rest else (s1, fs @ rest))")
  have e: "step rt s (Respond tid now resp) = set_task tid stack2 s2"
    using False st sf a c by simp
  have k: "act_keys (set_task tid stack2 s2) = act_keys s2"
    using keys_maps [of "set_task tid stack2 s2" s2] by simp
  have r: "list_ex (fin_frame cid sy) stack2 \<or> sy \<notin> act_keys s2 \<or> exited s2"
  proof (cases "fin_frame cid sy f")
    case True
    from advance_fin [OF True a]
    show ?thesis
    proof
      assume "fs \<noteq> [] \<and> list_ex (fin_frame cid sy) fs"
      then show ?thesis using c by auto
    next
      assume h: "fs = [] \<and> sy \<notin> act_keys s1"
      then have "s2 = fst (continue_ret s1 rest)" using c by simp
      then have "shrink s1 s2" by simp
      then show ?thesis using h act_keys_shrink by blast
    qed
  next
    case False
    then have fr: "list_ex (fin_frame cid sy) rest" using st(2) sf by simp
    show ?thesis
    proof (cases "fs = []")
      case True
      then have "continue_ret s1 rest = (s2, stack2)" using c by simp
      from continue_ret_fin [OF fr this] show ?thesis .
    next
      case False
      then show ?thesis using c fr by auto
    qed
  qed
  have t: "list_ex (fin_frame cid sy) stack2 \<Longrightarrow> in_finalize tid cid sy (set_task tid stack2 s2)"
    by (cases "stack2 = []") (simp_all add: in_finalize_def tasks_set_task)
  show ?thesis unfolding e using r t k by auto
qed

lemma step_finalize_done:
  assumes ne: "\<not> exited s" and st: "map_of (tasks s) tid = Some (f # rest)"
    and a: "advance rt now resp f s = (clearActivePosition sy s0, [])"
  shows "sy \<notin> act_keys (step rt s (Respond tid now resp))"
proof -
  obtain s2 stack2 where c: "continue_ret (clearActivePosition sy s0) rest = (s2, stack2)"
    by (cases "continue_ret (clearActivePosition sy s0) rest")
  have "shrink (clearActivePosition sy s0) (fst (continue_ret (clearActivePosition sy s0) rest))"
    by simp
  then have "sy \<notin> act_keys s2" using c act_keys_shrink cleared_clearActivePosition by fastforce
  moreover have "act_keys (set_task tid stack2 s2) = act_keys s2"
    using keys_maps [of "set_task tid stack2 s2" s2] by simp
  moreover have "step rt s (Respond tid now resp) = set_task tid stack2 s2"
    using ne st a c by simp
  ultimately show ?thesis by simp
qed


lemma act_keys_set_task [simp]: "act_keys (set_task tid stack s) = act_keys s"
  by (simp add: act_keys_def set_task_def)

text \<open>The ways out of the close loop lead into \<open>finalizePosition\<close>.\<close>

lemma finalizePosition_enters:
  assumes "map_of (activePositions s) sy = Some ref" and "map_of (heap s) ref = Some position"
  shows "finalizePosition cid sy s = (s, [FinEntry cid sy ref [ap_entryOrderLinkId position]])"
  using assms by (simp add: finalizePosition_def)

lemma flat_reading_finalizes:
  assumes ne: "\<not> exited s"
    and st: "map_of (tasks s) tid = Some (CloseSize cid sy ref0 side attempt # rest)"
    and z: "getPositionSize rt sized = Inr v" "v \<le> 0"
    and ap: "map_of (activePositions s) sy = Some ref" "map_of (heap s) ref = Some position"
  shows "step rt s (Respond tid now (R_position sized))
           = set_task tid (FinEntry cid sy ref [ap_entryOrderLinkId position] # rest) s"
proof -
  have "advance rt now (R_position sized) (CloseSize cid sy ref0 side attempt) s
          = (s, [FinEntry cid sy ref [ap_entryOrderLinkId position]])"
    using z finalizePosition_enters [OF ap] by (simp add: advance_def closePosition_sized_def)
  from step_waiting [OF ne st this] show ?thesis .
qed

lemma last_attempt_finalizes:
  assumes ne: "\<not> exited s"
    and st: "map_of (tasks s) tid = Some (CloseSleep cid sy ref0 side MAX_CLOSE_ATTEMPTS # rest)"
    and ap: "map_of (activePositions s) sy = Some ref" "map_of (heap s) ref = Some position"
  shows "step rt s (Respond tid now R_sleep)
           = set_task tid (FinEntry cid sy ref [ap_entryOrderLinkId position] # rest) s"
proof -
  have "advance rt now R_sleep (CloseSleep cid sy ref0 side MAX_CLOSE_ATTEMPTS) s
          = (s, [FinEntry cid sy ref [ap_entryOrderLinkId position]])"
    using finalizePosition_enters [OF ap] by (simp add: advance_def closePosition_loop_def)
  from step_waiting [OF ne st this] show ?thesis .
qed

lemma finalize_run_clears:
  assumes ne: "\<not> exited s"
    and st: "map_of (tasks s) tid = Some (FinEntry cid sy ref ids # rest)"
    and hp: "map_of (heap s) ref = Some position"
    and nb: "\<not> (breach rt wallet s \<and> tradingEnabled s)"
  shows "sy \<notin> act_keys (run rt s (finalize_script tid now entryVenue closeVenue history wallet))"
proof -
  let ?g = "tradePnl (summarizeExecutions rt entryVenue ids)
              + tradePnl (summarizeExecutions rt closeVenue (ap_closeOrderLinkIds position))"
  let ?f = "fee (summarizeExecutions rt entryVenue ids)
              + fee (summarizeExecutions rt closeVenue (ap_closeOrderLinkIds position))"
  let ?u = "fetchFundingFee rt history (ap_openedAt position - 30 * 60 * 1000) now now"
  define s3 where "s3 = set_task tid (FinBalance cid sy ?g ?f ?u # rest) s"
  have p: "\<not> exited s3" "map_of (tasks s3) tid = Some (FinBalance cid sy ?g ?f ?u # rest)"
    using ne by (simp_all add: s3_def tasks_set_task)
  have nb3: "\<not> (breach rt wallet s3 \<and> tradingEnabled s3)" using nb by (simp add: s3_def)
  have "advance rt now (R_wallet wallet) (FinBalance cid sy ?g ?f ?u) s3
          = (clearActivePosition sy (s3\<lparr> trace := trace s3 @ closed_log rt wallet sy ?g ?f ?u s3 \<rparr>), [])"
    using nb3 by (auto simp: advance_def finalizePosition_balance_cases Let_def)
  from step_finalize_done [OF p this] show ?thesis
    unfolding finalize_run [OF ne st hp] s3_def [symmetric] .
qed


section \<open>The report of a closed trade\<close>

lemma foldl_plus: "foldl (\<lambda>sum value. sum + value) a xs = a + sum_list xs" for a :: real
  by (induction xs arbitrary: a) auto

lemma sum_finite_simps:
  "sum_finite [] = 0"
  "sum_finite (Some x # vs) = x + sum_finite vs"
  "sum_finite (None # vs) = sum_finite vs"
  by (simp_all add: sum_finite_def List.map_filter_def foldl_plus)

lemmas trade_defs = tradeExecutions_def tradeFunding_def executionResponse_def sum_finite_simps

lemma run_closedTrade:
  "run rt0 closingState closedTrade =
     closingState\<lparr> tasks := [(5, [FinEntry 4 ''BTCUSDT'' 3 [''fund-1'']])],
       heap := [(3, openedPosition\<lparr> ap_closeOrderLinkIds := [''c1''] \<rparr>)],
       trace := trace closingState @ [CloseOrderSent 4
          \<lparr> rq_symbol = ''BTCUSDT'', rq_side = Buy, rq_qty = 5, rq_price = 100,
            rq_reduceOnly = True, rq_orderLinkId = ''c1'' \<rparr>] \<rparr>"
  by (simp add: closedTrade_def closingState_def openedPosition_def engine_defs script_defs)

text \<open>
  Claim C8, as the code has it.  A call of \<open>finalizePosition\<close> that has started, fed the
  executions of the entry order, those of the closing orders, the funding history and the
  wallet balance, logs one line when the balance is read: the trade PnL of the entry and
  closing orders, their fees as a negative amount, the funding fee, the equity just read
  and, when the starting equity is known, the change of the equity against it and the
  drawdown with its limit.  It logs nothing else but the halt after a breach, and nothing
  when the wallet query fails.  No net figure is computed from the PnL, the fees and the
  funding fee.
\<close>

theorem closed_trade_report:
  assumes "\<not> exited s"
    and "map_of (tasks s) tid = Some (FinEntry cid sy ref ids # rest)"
    and "map_of (heap s) ref = Some position"
  shows "trace (run rt s (finalize_script tid now entryVenue closeVenue history wallet))
     = trace s
       @ (case getWalletBalance rt (ACCOUNT_COIN rt) wallet of
            Inl e \<Rightarrow> []
          | Inr equity \<Rightarrow>
              [ClosedLogged
                 \<lparr> cl_symbol = sy,
                   cl_gross = tradePnl (summarizeExecutions rt entryVenue ids)
                      + tradePnl (summarizeExecutions rt closeVenue (ap_closeOrderLinkIds position)),
                   cl_fees = - (fee (summarizeExecutions rt entryVenue ids)
                      + fee (summarizeExecutions rt closeVenue (ap_closeOrderLinkIds position))),
                   cl_funding = fetchFundingFee rt history
                      (ap_openedAt position - 30 * 60 * 1000) now now,
                   cl_equity = equity,
                   cl_change = map_option (\<lambda>start. equity - start) (startingEquity s),
                   cl_drawdown = map_option (\<lambda>start. (start - equity, drawdownLimitUsd s))
                                   (startingEquity s) \<rparr>])
       @ (if breach rt wallet s \<and> tradingEnabled s then [ShutdownCalled ByBreach] else [])"
  unfolding finalize_run_trace [OF assms] by (simp add: closed_log_def split: sum.splits)

theorem closed_trade_report_witness:
  "\<not> exited (run rt0 closingState closedTrade)
   \<and> map_of (tasks (run rt0 closingState closedTrade)) 5 = Some [FinEntry 4 ''BTCUSDT'' 3 [''fund-1'']]
   \<and> map_of (heap (run rt0 closingState closedTrade)) 3
        = Some (openedPosition\<lparr> ap_closeOrderLinkIds := [''c1''] \<rparr>)
   \<and> trace (run rt0 (run rt0 closingState closedTrade)
        (finalize_script 5 9500 tradeExecutions tradeExecutions tradeFunding (walletResponse ''1005'')))
      = trace (run rt0 closingState closedTrade)
        @ [ClosedLogged \<lparr> cl_symbol = ''BTCUSDT'', cl_gross = 12, cl_fees = - 1.5,
             cl_funding = 0.8, cl_equity = 1005, cl_change = Some 5,
             cl_drawdown = Some (- 5, 30) \<rparr>]"
proof -
  let ?s = "run rt0 closingState closedTrade"
  have h1: "\<not> exited ?s" unfolding run_closedTrade by (simp add: closingState_def)
  have h2: "map_of (tasks ?s) 5 = Some (FinEntry 4 ''BTCUSDT'' 3 [''fund-1''] # [])"
    by (simp add: run_closedTrade)
  have h3: "map_of (heap ?s) 3 = Some (openedPosition\<lparr> ap_closeOrderLinkIds := [''c1''] \<rparr>)"
    by (simp add: run_closedTrade)
  have w: "getWalletBalance rt0 (ACCOUNT_COIN rt0) (walletResponse ''1005'') = Inr 1005"
    by (simp add: getWalletBalance_def ACCOUNT_COIN_def rt0_def walletResponse_def toNum_def
        decimal_val_def digit_val_def)
  have e: "summarizeExecutions rt0 tradeExecutions [''fund-1''] = \<lparr> fee = 0.5, tradePnl = 0 \<rparr>"
    by (simp add: summarizeExecutions_def summarizeOne_def getOrderExecutions_def trade_defs
        rt0_def decimal_val_def digit_val_def Let_def)
  have c: "summarizeExecutions rt0 tradeExecutions [''c1''] = \<lparr> fee = 1, tradePnl = 12 \<rparr>"
    by (simp add: summarizeExecutions_def summarizeOne_def getOrderExecutions_def trade_defs
        rt0_def decimal_val_def digit_val_def Let_def)
  have f: "fetchFundingFee rt0 tradeFunding (- 1798800) 9500 9500 = 0.8"
    by (simp add: fetchFundingFee_def getFundingHistory_def trade_defs
        rt0_def decimal_val_def digit_val_def Let_def)
  have s: "startingEquity ?s = Some 1000" "drawdownLimitUsd ?s = 30" "tradingEnabled ?s"
    unfolding run_closedTrade by (simp_all add: closingState_def)
  have b: "\<not> breach rt0 (walletResponse ''1005'') ?s" by (simp add: breach_def w s)
  have o: "ap_openedAt openedPosition = 1200" by (simp add: openedPosition_def)
  show ?thesis
    using h1 h2 h3
      closed_trade_report [OF h1 h2 h3, of rt0 9500 tradeExecutions tradeExecutions tradeFunding
        "walletResponse ''1005''"]
    by (simp add: w e c f s b o)
qed

text \<open>
  The example of the claim: gross PnL 12.00, fees 1.50 (0.50 at the entry, 1.00 at the
  close) and a funding fee of 0.80.  The line that \<open>finalizePosition\<close> logs holds 12,
  \<open>-1.5\<close> and 0.8, and the result it reports is the change of the equity read from the
  wallet, here 5; the figure 9.7 is not computed.
\<close>

theorem closed_trade_report_counterexample:
  "trace (run rt0 closingState settledTrade)
     = [EntryOrderSent ''BTCUSDT''
          \<lparr> rq_symbol = ''BTCUSDT'', rq_side = Sell, rq_qty = 5, rq_price = 100,
            rq_reduceOnly = False, rq_orderLinkId = ''fund-1'' \<rparr>,
        CloseOrderSent 4
          \<lparr> rq_symbol = ''BTCUSDT'', rq_side = Buy, rq_qty = 5, rq_price = 100,
            rq_reduceOnly = True, rq_orderLinkId = ''c1'' \<rparr>,
        ClosedLogged
          \<lparr> cl_symbol = ''BTCUSDT'', cl_gross = 12, cl_fees = - 1.5, cl_funding = 0.8,
            cl_equity = 1005, cl_change = Some 5, cl_drawdown = Some (- 5, 30) \<rparr>]
   \<and> (12 :: real) - 1.5 - 0.8 = 9.7
   \<and> (5 :: real) \<noteq> 9.7"
  by (simp add: settledTrade_def closedTrade_def finalize_script_def closingState_def
      engine_defs script_defs trade_defs del: sum_finite_def)


section \<open>The end of finalization\<close>

lemma in_finalize_set_task:
  "fin_frame cid sy f \<Longrightarrow> in_finalize tid cid sy (set_task tid (f # rest) s)"
  by (simp add: in_finalize_def tasks_set_task)

text \<open>
  Claim C7.  \<open>finalizePosition\<close>, called for a symbol that has a position record, starts:
  it waits for the executions of the entry order.  \<open>closePosition\<close> calls it when an
  attempt reads size 0 and when the last attempt is over.  Fed the answers of the venue, a
  call that halts nothing ends with the symbol gone from \<open>activePositions\<close>.  While a
  call is in progress (one of its frames is on the stack of its task), a step of that task
  either leaves it in progress, or ends it with the symbol gone (or with the process
  exited); this covers the call that halts the strategy and waits for \<open>shutdown\<close>.  An
  exception raised at any \<open>await\<close> inside the \<open>try\<close> ends the call with the symbol
  removed, and so does the last step of the normal path, the answer of the wallet query
  when no breach is acted on.  \<open>clearActivePosition\<close> removes the position's close timer
  together with the record.
\<close>

theorem finalize_clears:
  "(map_of (activePositions s) sy = Some ref \<and> map_of (heap s) ref = Some position \<longrightarrow>
      finalizePosition cid sy s = (s, [FinEntry cid sy ref [ap_entryOrderLinkId position]])
      \<and> (\<not> exited s \<and> map_of (tasks s) tid = Some (CloseSize cid sy ref0 side attempt # rest)
           \<and> getPositionSize rt sized = Inr v \<and> v \<le> 0 \<longrightarrow>
             in_finalize tid cid sy (step rt s (Respond tid now (R_position sized))))
      \<and> (\<not> exited s
           \<and> map_of (tasks s) tid = Some (CloseSleep cid sy ref0 side MAX_CLOSE_ATTEMPTS # rest) \<longrightarrow>
             in_finalize tid cid sy (step rt s (Respond tid now R_sleep))))
   \<and> (\<not> exited s \<and> map_of (tasks s) tid = Some (FinEntry cid sy ref ids # rest)
        \<and> map_of (heap s) ref = Some position \<and> \<not> (breach rt wallet s \<and> tradingEnabled s) \<longrightarrow>
          sy \<notin> act_keys
                 (run rt s (finalize_script tid now entryVenue closeVenue history wallet)))
   \<and> (in_finalize tid cid sy s \<longrightarrow>
      in_finalize tid cid sy (step rt s (Respond tid now resp))
      \<or> sy \<notin> act_keys (step rt s (Respond tid now resp))
      \<or> exited (step rt s (Respond tid now resp)))
   \<and> (\<not> exited s \<and> map_of (tasks s) tid = Some (f # rest) \<and> fin_frame cid sy f
        \<and> f \<noteq> FinShutdown cid sy \<longrightarrow>
          sy \<notin> act_keys (step rt s (Respond tid now R_throw)))
   \<and> (\<not> exited s \<and> map_of (tasks s) tid = Some (FinBalance cid sy gross fees funding # rest)
        \<and> \<not> (breach rt wallet s \<and> tradingEnabled s) \<longrightarrow>
          sy \<notin> act_keys (step rt s (Respond tid now (R_wallet wallet))))
   \<and> (map_of (activePositions s) sy = Some ref \<and> map_of (heap s) ref = Some position \<longrightarrow>
          map_of (timers (clearActivePosition sy s)) (ap_closeTimer position) = None
          \<and> map_of (activePositions (clearActivePosition sy s)) sy = None)"
proof -
  have e0: "finalizePosition cid sy s = (s, [FinEntry cid sy ref [ap_entryOrderLinkId position]])"
    if "map_of (activePositions s) sy = Some ref" "map_of (heap s) ref = Some position"
    using that by (rule finalizePosition_enters)
  have e1: "in_finalize tid cid sy (step rt s (Respond tid now (R_position sized)))"
    if "map_of (activePositions s) sy = Some ref" "map_of (heap s) ref = Some position"
      "\<not> exited s" "map_of (tasks s) tid = Some (CloseSize cid sy ref0 side attempt # rest)"
      "getPositionSize rt sized = Inr v" "v \<le> 0"
    unfolding flat_reading_finalizes [OF that(3,4,5,6,1,2)]
    by (rule in_finalize_set_task) (simp add: fin_frame_simps)
  have e2: "in_finalize tid cid sy (step rt s (Respond tid now R_sleep))"
    if "map_of (activePositions s) sy = Some ref" "map_of (heap s) ref = Some position"
      "\<not> exited s"
      "map_of (tasks s) tid = Some (CloseSleep cid sy ref0 side MAX_CLOSE_ATTEMPTS # rest)"
    unfolding last_attempt_finalizes [OF that(3,4,1,2)]
    by (rule in_finalize_set_task) (simp add: fin_frame_simps)
  have e3: "sy \<notin> act_keys (run rt s (finalize_script tid now entryVenue closeVenue history wallet))"
    if "\<not> exited s" "map_of (tasks s) tid = Some (FinEntry cid sy ref ids # rest)"
      "map_of (heap s) ref = Some position" "\<not> (breach rt wallet s \<and> tradingEnabled s)"
    using that by (rule finalize_run_clears)
  have p1: "in_finalize tid cid sy s \<longrightarrow>
      in_finalize tid cid sy (step rt s (Respond tid now resp))
      \<or> sy \<notin> act_keys (step rt s (Respond tid now resp))
      \<or> exited (step rt s (Respond tid now resp))"
    using step_finalize by blast
  have p2: "sy \<notin> act_keys (step rt s (Respond tid now R_throw))"
    if h: "\<not> exited s" "map_of (tasks s) tid = Some (f # rest)" "fin_frame cid sy f"
      "f \<noteq> FinShutdown cid sy"
  proof -
    have "advance rt now R_throw f s = (clearActivePosition sy s, [])"
      using h(3,4) by (cases f) (auto simp: advance_def fin_frame_simps finalizePosition_caught_def)
    from step_finalize_done [OF h(1) h(2) this] show ?thesis .
  qed
  have p3: "sy \<notin> act_keys (step rt s (Respond tid now (R_wallet wallet)))"
    if h: "\<not> exited s" "map_of (tasks s) tid = Some (FinBalance cid sy gross fees funding # rest)"
      "\<not> (breach rt wallet s \<and> tradingEnabled s)"
  proof -
    have "advance rt now (R_wallet wallet) (FinBalance cid sy gross fees funding) s
            = (clearActivePosition sy
                 (s\<lparr> trace := trace s @ closed_log rt wallet sy gross fees funding s \<rparr>), [])"
      using h(3) by (auto simp: advance_def finalizePosition_balance_cases Let_def)
    from step_finalize_done [OF h(1) h(2) this] show ?thesis .
  qed
  have p4: "map_of (timers (clearActivePosition sy s)) (ap_closeTimer position) = None
          \<and> map_of (activePositions (clearActivePosition sy s)) sy = None"
    if "map_of (activePositions s) sy = Some ref" "map_of (heap s) ref = Some position"
    using that by (simp add: clearActivePosition_def clearTimeout_def Let_def delete_conv')
  show ?thesis using e0 e1 e2 e3 p1 p2 p3 p4 by blast
qed


lemma run_lastAttempt:
  "run rt0 closingState lastAttempt =
     closingState\<lparr> tasks := [(5, [CloseSleep 4 ''BTCUSDT'' 3 Buy 5])],
       heap := [(3, openedPosition\<lparr> ap_closeOrderLinkIds := [''c1'', ''c2'', ''c3'', ''c4'', ''c5''] \<rparr>)],
       trace := trace closingState @ map (\<lambda>l. CloseOrderSent 4 (closeOrder l))
                  [''c1'', ''c2'', ''c3'', ''c4'', ''c5''] \<rparr>"
  by (simp add: lastAttempt_def closeOrder_def closingState_def openedPosition_def engine_defs script_defs)

theorem finalize_clears_witness:
  "map_of (activePositions closingState) ''BTCUSDT'' = Some 3
   \<and> map_of (heap closingState) 3 = Some openedPosition
   \<and> map_of (tasks closingState) 5 = Some [CloseSize 4 ''BTCUSDT'' 3 Buy 1]
   \<and> getPositionSize rt0 (sizeResponse (Some ''0'')) = Inr 0
   \<and> finalizePosition 4 ''BTCUSDT'' closingState
        = (closingState, [FinEntry 4 ''BTCUSDT'' 3 [''fund-1'']])
   \<and> in_finalize 5 4 ''BTCUSDT''
        (step rt0 closingState (Respond 5 9100 (R_position (sizeResponse (Some ''0'')))))
   \<and> map_of (tasks (run rt0 closingState lastAttempt)) 5
        = Some [CloseSleep 4 ''BTCUSDT'' 3 Buy MAX_CLOSE_ATTEMPTS]
   \<and> in_finalize 5 4 ''BTCUSDT'' (step rt0 (run rt0 closingState lastAttempt) (Respond 5 9100 R_sleep))
   \<and> map_of (tasks (run rt0 closingState closedTrade)) 5 = Some [FinEntry 4 ''BTCUSDT'' 3 [''fund-1'']]
   \<and> ''BTCUSDT'' \<in> act_keys (run rt0 closingState closedTrade)
   \<and> ''BTCUSDT'' \<notin> act_keys (run rt0 closingState settledTrade)
   \<and> in_finalize 8 7 ''BTCUSDT'' bothFinalizing
   \<and> map_of (tasks bothFinalizing) 8 = Some [FinBalance 7 ''BTCUSDT'' 0 0 0]
   \<and> act_keys bothFinalizing = {''BTCUSDT'', ''ETHUSDT''}
   \<and> ''BTCUSDT'' \<notin> act_keys (step rt0 bothFinalizing (Respond 8 9500 R_throw))
   \<and> ''BTCUSDT'' \<notin> act_keys (step rt0 bothFinalizing
         (Respond 8 9500 (R_wallet (walletResponse ''1000''))))
   \<and> map_of (activePositions (run rt0 initial openedTrade)) ''BTCUSDT'' = Some 3
   \<and> map_of (heap (run rt0 initial openedTrade)) 3 = Some openedPosition
   \<and> map_of (timers (run rt0 initial openedTrade)) 2
        = Some \<lparr> pt_due = 9000, pt_callback = CloseTimer ''BTCUSDT'' \<rparr>
   \<and> map_of (timers (clearActivePosition ''BTCUSDT'' (run rt0 initial openedTrade))) 2 = None
   \<and> map_of (activePositions (clearActivePosition ''BTCUSDT'' (run rt0 initial openedTrade)))
        ''BTCUSDT'' = None"
proof -
  let ?c = "run rt0 closingState closedTrade"
  let ?l = "run rt0 closingState lastAttempt"
  have c1: "map_of (activePositions closingState) ''BTCUSDT'' = Some 3"
    "map_of (heap closingState) 3 = Some openedPosition"
    "\<not> exited closingState"
    "map_of (tasks closingState) 5 = Some (CloseSize 4 ''BTCUSDT'' 3 Buy 1 # [])"
    by (simp_all add: closingState_def openedPosition_def)
  have z: "getPositionSize rt0 (sizeResponse (Some ''0'')) = Inr 0"
    by (simp add: sizeResponse_def getPositionSize_def rt0_def decimal_val_def digit_val_def)
  have id1: "ap_entryOrderLinkId openedPosition = ''fund-1''" by (simp add: openedPosition_def)
  have l1: "map_of (activePositions ?l) ''BTCUSDT'' = Some 3"
    "map_of (heap ?l) 3
       = Some (openedPosition\<lparr> ap_closeOrderLinkIds := [''c1'', ''c2'', ''c3'', ''c4'', ''c5''] \<rparr>)"
    "\<not> exited ?l"
    "map_of (tasks ?l) 5 = Some (CloseSleep 4 ''BTCUSDT'' 3 Buy MAX_CLOSE_ATTEMPTS # [])"
    unfolding run_lastAttempt by (simp_all add: closingState_def MAX_CLOSE_ATTEMPTS_def)
  have f1: "\<not> exited ?c" "map_of (tasks ?c) 5 = Some (FinEntry 4 ''BTCUSDT'' 3 [''fund-1''] # [])"
    "map_of (heap ?c) 3 = Some (openedPosition\<lparr> ap_closeOrderLinkIds := [''c1''] \<rparr>)"
    "''BTCUSDT'' \<in> act_keys ?c"
    unfolding run_closedTrade by (simp_all add: closingState_def act_keys_def)
  have w5: "getWalletBalance rt0 (ACCOUNT_COIN rt0) (walletResponse ''1005'') = Inr 1005"
    by (simp add: getWalletBalance_def ACCOUNT_COIN_def rt0_def walletResponse_def toNum_def
        decimal_val_def digit_val_def)
  have f2: "\<not> (breach rt0 (walletResponse ''1005'') ?c \<and> tradingEnabled ?c)"
    unfolding run_closedTrade by (simp add: breach_def w5 closingState_def)
  have st: "run rt0 closingState settledTrade
      = run rt0 ?c (finalize_script 5 9500 tradeExecutions tradeExecutions tradeFunding
                      (walletResponse ''1005''))"
    by (simp add: settledTrade_def run_append)
  have h0: "in_finalize 8 7 ''BTCUSDT'' bothFinalizing"
    by (simp add: in_finalize_def bothFinalizing_def fin_frame_simps)
  have h1: "\<not> exited bothFinalizing" by (simp add: bothFinalizing_def)
  have h2: "map_of (tasks bothFinalizing) 8 = Some (FinBalance 7 ''BTCUSDT'' 0 0 0 # [])"
    by (simp add: bothFinalizing_def)
  have h3: "fin_frame 7 ''BTCUSDT'' (FinBalance 7 ''BTCUSDT'' 0 0 0)"
    "FinBalance 7 ''BTCUSDT'' 0 0 0 \<noteq> FinShutdown 7 ''BTCUSDT''"
    by (simp_all add: fin_frame_simps)
  have w: "getWalletBalance rt0 (ACCOUNT_COIN rt0) (walletResponse ''1000'') = Inr 1000"
    by (simp add: getWalletBalance_def ACCOUNT_COIN_def rt0_def walletResponse_def toNum_def
        decimal_val_def digit_val_def)
  have h4: "\<not> (breach rt0 (walletResponse ''1000'') bothFinalizing \<and> tradingEnabled bothFinalizing)"
    by (simp add: breach_def w) (simp add: bothFinalizing_def)
  have k: "act_keys bothFinalizing = {''BTCUSDT'', ''ETHUSDT''}"
    by (auto simp: act_keys_def bothFinalizing_def)
  have o: "map_of (activePositions (run rt0 initial openedTrade)) ''BTCUSDT'' = Some 3
     \<and> map_of (heap (run rt0 initial openedTrade)) 3 = Some openedPosition
     \<and> map_of (timers (run rt0 initial openedTrade)) 2
          = Some \<lparr> pt_due = 9000, pt_callback = CloseTimer ''BTCUSDT'' \<rparr>"
    by (simp add: openedTrade_def openedPosition_def initial_def engine_defs)
  have t: "ap_closeTimer openedPosition = 2" by (simp add: openedPosition_def)
  have A: "finalizePosition 4 ''BTCUSDT'' closingState
        = (closingState, [FinEntry 4 ''BTCUSDT'' 3 [''fund-1'']])
     \<and> in_finalize 5 4 ''BTCUSDT''
        (step rt0 closingState (Respond 5 9100 (R_position (sizeResponse (Some ''0'')))))"
    using c1 z id1
      finalize_clears [where s = closingState and sy = "''BTCUSDT''" and ref = 3
        and position = openedPosition and cid = 4 and tid = 5 and ref0 = 3 and side = Buy
        and attempt = 1 and rest = "[]" and rt = rt0 and sized = "sizeResponse (Some ''0'')"
        and v = 0 and now = 9100]
    by simp
  have B: "in_finalize 5 4 ''BTCUSDT'' (step rt0 ?l (Respond 5 9100 R_sleep))"
    using l1
      finalize_clears [where s = ?l and sy = "''BTCUSDT''" and ref = 3
        and position = "openedPosition\<lparr> ap_closeOrderLinkIds := [''c1'', ''c2'', ''c3'', ''c4'', ''c5''] \<rparr>"
        and cid = 4 and tid = 5 and ref0 = 3 and side = Buy and rest = "[]" and rt = rt0
        and now = 9100]
    by simp
  have C: "''BTCUSDT'' \<notin> act_keys (run rt0 closingState settledTrade)"
    unfolding st
    using f1 f2
      finalize_clears [where s = ?c and sy = "''BTCUSDT''" and ref = 3
        and position = "openedPosition\<lparr> ap_closeOrderLinkIds := [''c1''] \<rparr>"
        and cid = 4 and tid = 5 and ids = "[''fund-1'']" and rest = "[]" and rt = rt0
        and now = 9500 and wallet = "walletResponse ''1005''" and entryVenue = tradeExecutions
        and closeVenue = tradeExecutions and history = tradeFunding]
    by simp
  have D: "''BTCUSDT'' \<notin> act_keys (step rt0 bothFinalizing (Respond 8 9500 R_throw))
     \<and> ''BTCUSDT'' \<notin> act_keys (step rt0 bothFinalizing
         (Respond 8 9500 (R_wallet (walletResponse ''1000''))))"
    using h0 h1 h2 h3 h4
      finalize_clears [where tid = 8 and cid = 7 and sy = "''BTCUSDT''" and s = bothFinalizing
        and rt = rt0 and now = 9500 and resp = R_throw and f = "FinBalance 7 ''BTCUSDT'' 0 0 0"
        and rest = "[]" and gross = 0 and fees = 0 and funding = 0
        and wallet = "walletResponse ''1000''"]
    by simp
  have E: "map_of (timers (clearActivePosition ''BTCUSDT'' (run rt0 initial openedTrade))) 2 = None
     \<and> map_of (activePositions (clearActivePosition ''BTCUSDT'' (run rt0 initial openedTrade)))
        ''BTCUSDT'' = None"
    using o t
      finalize_clears [where sy = "''BTCUSDT''" and s = "run rt0 initial openedTrade"
        and ref = 3 and position = openedPosition]
    by simp
  show ?thesis using c1 z l1 f1 h0 h2 k o A B C D E by simp
qed


end
